theory Spec2Isabelle
  imports Main "HOL-Library.Sublist" "HOL-Library.Char_ord" "HOL-Library.List_Lexorder"
begin

section \<open>Values, errors and the built-ins the script relies on\<close>

text \<open>
  The script \<^verbatim>\<open>scholar-to-coa.py\<close> handles dictionaries delivered by the
  \<^verbatim>\<open>scholarly\<close> client. A year (\<^verbatim>\<open>pub_year\<close>) is either a string or an
  integer, so it is a value of \<open>pyval\<close>. Strings are byte strings in UTF-8: splitting at
  an ASCII separator, equality and the code-point order agree with Python's on that
  encoding.

  Exceptions are values of \<open>error\<close>; all of them are instances of Python's
  \<^verbatim>\<open>Exception\<close>. \<open>SourceError\<close> stands for whatever the external client raises
  (network failure, blocked request, \<^verbatim>\<open>StopIteration\<close> inside its parser, ...).
  Asynchronous exits that are not instances of \<^verbatim>\<open>Exception\<close>
  (\<^verbatim>\<open>KeyboardInterrupt\<close>, \<^verbatim>\<open>SystemExit\<close>) are outside the model.
\<close>

datatype pyval = PStr string | PInt int

datatype error = ValueError | TypeError | KeyError | SourceError string

subsection \<open>\<^verbatim>\<open>str.split(sep)\<close> and \<^verbatim>\<open>sep.join(parts)\<close>\<close>

text \<open>
  \<^verbatim>\<open>s.split(sep)\<close> with an explicit non-empty separator: the string is scanned from
  the left, every occurrence of \<open>sep\<close> ends the current piece and the scan resumes behind
  it. The result is never empty (\<^verbatim>\<open>"".split(" ") == [""]\<close>). Both call sites pass a
  non-empty literal, the only case in which Python does not raise.
\<close>

fun py_split :: "string \<Rightarrow> string \<Rightarrow> string list" where
  "py_split sep [] = [[]]"
| "py_split sep (c # cs) =
     (if sep \<noteq> [] \<and> prefix sep (c # cs)
      then [] # py_split sep (drop (length sep - 1) cs)
      else (let r = py_split sep cs in (c # hd r) # tl r))"

fun py_join :: "string \<Rightarrow> string list \<Rightarrow> string" where
  "py_join sep [] = []"
| "py_join sep [x] = x"
| "py_join sep (x # y # ys) = x @ sep @ py_join sep (y # ys)"

subsection \<open>\<^verbatim>\<open>int(x)\<close>\<close>

text \<open>
  \<^verbatim>\<open>int\<close> of an integer is that integer. \<^verbatim>\<open>int\<close> of a string returns the
  integer it reads or raises \<^verbatim>\<open>ValueError\<close>. Which strings it reads, and as what, is
  fixed by the interpreter and not by the script: by its tables of Unicode white space and
  decimal digits, by its rules for signs and underscores, and by its limit on the number
  of digits. The reading of strings is therefore a parameter \<open>read\<close> of which nothing
  is assumed (\<open>None\<close> stands for \<^verbatim>\<open>ValueError\<close>); a run takes it from its
  environment, and every result below holds whatever it is.
\<close>

fun py_int :: "(string \<Rightarrow> int option) \<Rightarrow> pyval \<Rightarrow> error + int" where
  "py_int read (PInt i) = Inr i"
| "py_int read (PStr s) = (case read s of None \<Rightarrow> Inl ValueError | Some n \<Rightarrow> Inr n)"

subsection \<open>\<^verbatim>\<open>max(iterable)\<close>\<close>

text \<open>
  \<^verbatim>\<open>max\<close> keeps the first element and replaces it by each later element that
  compares greater. Two strings compare by code points, two integers by value; a string
  against an integer raises \<^verbatim>\<open>TypeError\<close>. An empty argument raises
  \<^verbatim>\<open>ValueError\<close>.
\<close>

fun py_gt :: "pyval \<Rightarrow> pyval \<Rightarrow> error + bool" where
  "py_gt (PStr a) (PStr b) = Inr (a > b)"
| "py_gt (PInt a) (PInt b) = Inr (a > b)"
| "py_gt _ _ = Inl TypeError"

fun max_loop :: "pyval \<Rightarrow> pyval list \<Rightarrow> error + pyval" where
  "max_loop m [] = Inr m"
| "max_loop m (x # xs) =
     (case py_gt x m of
        Inl e \<Rightarrow> Inl e
      | Inr b \<Rightarrow> max_loop (if b then x else m) xs)"

fun py_max :: "pyval list \<Rightarrow> error + pyval" where
  "py_max [] = Inl ValueError"
| "py_max (x # xs) = max_loop x xs"

subsection \<open>Dictionaries and sets\<close>

text \<open>
  A \<^verbatim>\<open>dict\<close> keeps its keys in insertion order, and the export depends on that order,
  so a dictionary is an association list with distinct keys: assigning to a key that is
  present replaces the value where it stands, assigning to a new key appends it.
  A \<^verbatim>\<open>set\<close> of years is a list without repetitions; the script only tests
  membership and emptiness and takes the maximum of it, none of which depends on the
  order of the elements (for the maximum, see \<open>py_max_order_independent\<close> below).
\<close>

type_synonym ('k, 'v) dict = "('k \<times> 'v) list"

fun dict_set :: "('k, 'v) dict \<Rightarrow> 'k \<Rightarrow> 'v \<Rightarrow> ('k, 'v) dict" where
  "dict_set [] k v = [(k, v)]"
| "dict_set ((k', v') # d) k v =
     (if k' = k then (k, v) # d else (k', v') # dict_set d k v)"

definition set_add :: "'a list \<Rightarrow> 'a \<Rightarrow> 'a list" where
  "set_add s x = (if x \<in> set s then s else s @ [x])"

section \<open>Name clean-up\<close>

text \<open>
  The body of the loop of \<^verbatim>\<open>_nsf_name_cleanup\<close>, for one name:
  \<^verbatim>\<open>name_parts[-1]\<close> is \<open>last\<close>, \<^verbatim>\<open>name_parts[:-1]\<close> is \<open>butlast\<close>; both are
  only evaluated when there are at least two parts.
\<close>

definition reordered_name :: "string \<Rightarrow> string" where
  "reordered_name coauthor =
     (let name_parts = py_split '' '' coauthor
      in if length name_parts > 1
         then last name_parts @ '', '' @ py_join '' '' (butlast name_parts)
         else coauthor)"

definition nsf_name_cleanup :: "string list \<Rightarrow> string list" where
  "nsf_name_cleanup coauthors = map reordered_name coauthors"

section \<open>The records of the data source\<close>

text \<open>
  A field the script reads with \<^verbatim>\<open>.get(key, default)\<close> or tests with \<^verbatim>\<open>in\<close> may
  be absent, so it is an \<open>option\<close>. One record type serves for an author entry as the
  search yields it, for the same entry after \<^verbatim>\<open>scholarly.fill\<close>, and for the
  subject's profile.
\<close>

record bib =
  title :: "string option"
  pub_year :: "pyval option"
  author :: "string option"

record paper =
  bib :: "bib option"

record scholar =
  name :: "string option"
  affiliation :: "string option"
  publications :: "paper list option"

text \<open>
  \<^verbatim>\<open>scholarly.search_author\<close> returns a generator: it yields candidates one at a
  time and may raise while it is advanced.
\<close>

datatype 'a gen = Stop | Yield 'a "'a gen" | Raise error

text \<open>
  The environment of a run: the interpreter's reading of strings by \<^verbatim>\<open>int\<close>, the
  clock and the external data source. Every call of the source may raise, and within one
  run the source answers a request by a function of the request. \<^verbatim>\<open>scholarly.fill\<close>
  also updates its argument in place; the script reads only the value returned. The two
  reads of the clock (in the main block and in \<^verbatim>\<open>_get_unique_coauthors\<close>) are taken
  to fall in the same calendar year.
\<close>

record world =
  int_of_str :: "string \<Rightarrow> int option"
  current_year :: int
  search_author_id :: "string \<Rightarrow> error + scholar option"
  search_author :: "string \<Rightarrow> error + scholar gen"
  fill_author :: "scholar \<Rightarrow> error + scholar"
  fill_paper :: "paper \<Rightarrow> error + paper"

text \<open>What the script prints on standard output, one event for each \<^verbatim>\<open>print\<close>.\<close>

datatype event =
    Retrieving string
  | ProfileFound "string option"
  | ExtractingFrom int
  | Processing nat int
  | ValidatingAffiliations
  | Validating nat
  | ErrorRetrieving string error
  | Saved string
  | NoProfile

section \<open>Co-author extraction\<close>

text \<open>
  The year filter of \<^verbatim>\<open>_get_unique_coauthors\<close>. \<open>get_pub_year\<close> is
  \<^verbatim>\<open>p.get("bib", {}).get("pub_year")\<close>: the year is missing when the paper has no
  \<^verbatim>\<open>bib\<close> or the \<^verbatim>\<open>bib\<close> has no \<^verbatim>\<open>pub_year\<close>. The value handed to
  \<^verbatim>\<open>int\<close> is the year, or the current year when it is missing. The list
  comprehension raises as soon as \<^verbatim>\<open>int\<close> raises on one paper.
\<close>

definition get_pub_year :: "paper \<Rightarrow> pyval option" where
  "get_pub_year p = (case bib p of None \<Rightarrow> None | Some b \<Rightarrow> pub_year b)"

definition filter_year :: "world \<Rightarrow> paper \<Rightarrow> error + int" where
  "filter_year w p =
     py_int (int_of_str w)
       (case get_pub_year p of None \<Rightarrow> PInt (current_year w) | Some y \<Rightarrow> y)"

fun filter_papers :: "world \<Rightarrow> int \<Rightarrow> paper list \<Rightarrow> error + paper list" where
  "filter_papers w year_cutoff [] = Inr []"
| "filter_papers w year_cutoff (p # ps) =
     (case filter_year w p of
        Inl e \<Rightarrow> Inl e
      | Inr y \<Rightarrow>
          (case filter_papers w year_cutoff ps of
             Inl e \<Rightarrow> Inl e
           | Inr r \<Rightarrow> Inr (if y \<ge> year_cutoff then p # r else r)))"

text \<open>
  The inner loop over the names of one paper. \<open>my_name\<close> is
  \<^verbatim>\<open>profile.get("name", None)\<close>; a name never equals \<^verbatim>\<open>None\<close>.
\<close>

fun add_coauthors ::
  "string list \<Rightarrow> pyval \<Rightarrow> string option \<Rightarrow> (string, pyval list) dict
     \<Rightarrow> (string, pyval list) dict" where
  "add_coauthors [] paper_year my_name unique_coauthors = unique_coauthors"
| "add_coauthors (coauthor # rest) paper_year my_name unique_coauthors =
     (if Some coauthor = my_name
      then add_coauthors rest paper_year my_name unique_coauthors
      else (case map_of unique_coauthors coauthor of
              Some years \<Rightarrow>
                add_coauthors rest paper_year my_name
                  (dict_set unique_coauthors coauthor (set_add years paper_year))
            | None \<Rightarrow>
                add_coauthors rest paper_year my_name
                  (dict_set unique_coauthors coauthor [paper_year])))"

text \<open>
  What the loop body reads from one paper: the paper is filled, its \<^verbatim>\<open>bib\<close> must be
  there (\<^verbatim>\<open>paper_full["bib"]\<close> raises \<^verbatim>\<open>KeyError\<close> otherwise); without an
  \<^verbatim>\<open>author\<close> field the paper contributes no name; otherwise the names are the pieces
  of the author field between \<^verbatim>\<open>" and "\<close>, and the year is the filled
  \<^verbatim>\<open>pub_year\<close> or the string \<^verbatim>\<open>"Unknown"\<close>.
\<close>

definition paper_year_of :: "bib \<Rightarrow> pyval" where
  "paper_year_of b = (case pub_year b of None \<Rightarrow> PStr ''Unknown'' | Some y \<Rightarrow> y)"

definition paper_coauthors :: "world \<Rightarrow> paper \<Rightarrow> error + (string list \<times> pyval)" where
  "paper_coauthors w p =
     (case fill_paper w p of
        Inl e \<Rightarrow> Inl e
      | Inr paper_full \<Rightarrow>
          (case bib paper_full of
             None \<Rightarrow> Inl KeyError
           | Some b \<Rightarrow>
               (case author b of
                  None \<Rightarrow> Inr ([], paper_year_of b)
                | Some a \<Rightarrow> Inr (py_split '' and '' a, paper_year_of b))))"

fun extract_loop ::
  "world \<Rightarrow> paper list \<Rightarrow> string option \<Rightarrow> (string, pyval list) dict
     \<Rightarrow> error + (string, pyval list) dict" where
  "extract_loop w [] my_name unique_coauthors = Inr unique_coauthors"
| "extract_loop w (p # ps) my_name unique_coauthors =
     (case paper_coauthors w p of
        Inl e \<Rightarrow> Inl e
      | Inr (coauthors, paper_year) \<Rightarrow>
          extract_loop w ps my_name
            (add_coauthors coauthors paper_year my_name unique_coauthors))"

text \<open>
  The closing dictionary comprehension: the entries are visited in insertion order and
  each is stored under its cleaned-up name.
\<close>

definition rename_keys :: "(string, pyval list) dict \<Rightarrow> (string, pyval list) dict" where
  "rename_keys unique_coauthors =
     foldl (\<lambda>d (nm, titles). dict_set d (nsf_name_cleanup [nm] ! 0) titles)
       [] unique_coauthors"

definition get_unique_coauthors ::
  "world \<Rightarrow> paper list \<Rightarrow> int \<Rightarrow> string option
     \<Rightarrow> (error + (string, pyval list) dict) \<times> event list" where
  "get_unique_coauthors w papers year_cutoff my_name =
     (case filter_papers w year_cutoff papers of
        Inl e \<Rightarrow> (Inl e, [])
      | Inr filtered_papers \<Rightarrow>
          (case extract_loop w filtered_papers my_name [] of
             Inl e \<Rightarrow> (Inl e, [Processing (length filtered_papers) year_cutoff])
           | Inr unique_coauthors \<Rightarrow>
               (Inr (rename_keys unique_coauthors),
                [Processing (length filtered_papers) year_cutoff])))"

section \<open>Affiliation validation\<close>

text \<open>
  The loop over the publications of one filled candidate: the first publication whose
  year (or \<^verbatim>\<open>"Unknown"\<close> when it has none) is in \<open>pub_years\<close> assigns the candidate's
  affiliation \<open>affil\<close> to \<open>validated_affiliation\<close> and ends the loop.
\<close>

definition cand_pub_year :: "paper \<Rightarrow> pyval" where
  "cand_pub_year pub = (case get_pub_year pub of None \<Rightarrow> PStr ''Unknown'' | Some y \<Rightarrow> y)"

fun scan_pubs :: "paper list \<Rightarrow> pyval list \<Rightarrow> string \<Rightarrow> string \<Rightarrow> string" where
  "scan_pubs [] pub_years affil validated_affiliation = validated_affiliation"
| "scan_pubs (pub # pubs) pub_years affil validated_affiliation =
     (if cand_pub_year pub \<in> set pub_years then affil
      else scan_pubs pubs pub_years affil validated_affiliation)"

text \<open>
  The loop over the search results. The generator is advanced only when the loop asks
  for the next candidate; the loop is left as soon as \<open>validated_affiliation\<close> differs
  from \<^verbatim>\<open>"Unknown Institution"\<close>.
\<close>

fun scan_results :: "world \<Rightarrow> scholar gen \<Rightarrow> pyval list \<Rightarrow> string \<Rightarrow> error + string" where
  "scan_results w Stop pub_years validated_affiliation = Inr validated_affiliation"
| "scan_results w (Raise e) pub_years validated_affiliation = Inl e"
| "scan_results w (Yield result rest) pub_years validated_affiliation =
     (case fill_author w result of
        Inl e \<Rightarrow> Inl e
      | Inr author_filled \<Rightarrow>
          (let affil =
                 (case affiliation author_filled of
                    None \<Rightarrow> ''Unknown Institution'' | Some a \<Rightarrow> a);
               validated_affiliation' =
                 scan_pubs (case publications author_filled of None \<Rightarrow> [] | Some ps \<Rightarrow> ps)
                   pub_years affil validated_affiliation
           in if validated_affiliation' \<noteq> ''Unknown Institution''
              then Inr validated_affiliation'
              else scan_results w rest pub_years validated_affiliation'))"

text \<open>The body of the \<^verbatim>\<open>try\<close> block, for one co-author.\<close>

definition validate_one :: "world \<Rightarrow> string \<Rightarrow> pyval list \<Rightarrow> error + (string \<times> pyval)" where
  "validate_one w coauthor pub_years =
     (case search_author w coauthor of
        Inl e \<Rightarrow> Inl e
      | Inr search_results \<Rightarrow>
          (case (if pub_years \<noteq> [] then py_max pub_years else Inr (PStr ''Unknown'')) of
             Inl e \<Rightarrow> Inl e
           | Inr latest_pub_year \<Rightarrow>
               (case scan_results w search_results pub_years ''Unknown Institution'' of
                  Inl e \<Rightarrow> Inl e
                | Inr validated_affiliation \<Rightarrow>
                    Inr (validated_affiliation, latest_pub_year))))"

text \<open>
  The loop over the co-authors, with the \<^verbatim>\<open>except Exception\<close> handler: the error is
  printed and the placeholder pair is stored. The pause of one second after a successful
  look-up has no effect on the values and is left out.
\<close>

fun validate_loop ::
  "world \<Rightarrow> (string, pyval list) dict \<Rightarrow> (string, string \<times> pyval) dict \<Rightarrow> event list
     \<Rightarrow> (string, string \<times> pyval) dict \<times> event list" where
  "validate_loop w [] coauthors_with_affiliations out = (coauthors_with_affiliations, out)"
| "validate_loop w ((coauthor, pub_years) # rest) coauthors_with_affiliations out =
     (case validate_one w coauthor pub_years of
        Inr r \<Rightarrow>
          validate_loop w rest (dict_set coauthors_with_affiliations coauthor r) out
      | Inl e \<Rightarrow>
          validate_loop w rest
            (dict_set coauthors_with_affiliations coauthor
               (''Unknown Institution'', PStr ''Unknown''))
            (out @ [ErrorRetrieving coauthor e]))"

definition get_validated_affiliations ::
  "world \<Rightarrow> (string, pyval list) dict
     \<Rightarrow> (string, string \<times> pyval) dict \<times> event list" where
  "get_validated_affiliations w coauthors_with_years =
     validate_loop w coauthors_with_years [] [Validating (length coauthors_with_years)]"

section \<open>Export and the main block\<close>

text \<open>
  A file written through a \<^verbatim>\<open>csv\<close> writer is the writer's delimiter and the rows
  handed to \<^verbatim>\<open>writerow\<close>, each the list of its field values; the quoting of
  fields and the line ends are the library's. The file system maps a path to a file.
  Opening with mode \<^verbatim>\<open>"w"\<close> starts from an empty file whatever was there; it is
  taken to succeed.
\<close>

record csv_file =
  file_delimiter :: char
  file_rows :: "pyval list list"

type_synonym fs = "string \<rightharpoonup> csv_file"

definition coa_row :: "string \<times> string \<times> pyval \<Rightarrow> pyval list" where
  "coa_row item =
     (case item of (nm, affil, pub_date) \<Rightarrow>
        [PStr ''A:'', PStr nm, PStr affil, PStr [], pub_date])"

fun write_rows :: "(string, string \<times> pyval) dict \<Rightarrow> pyval list list \<Rightarrow> pyval list list" where
  "write_rows [] file = file"
| "write_rows (item # items) file = write_rows items (file @ [coa_row item])"

definition save_coa_tsv ::
  "(string, string \<times> pyval) dict \<Rightarrow> string \<Rightarrow> fs \<Rightarrow> fs \<times> event list" where
  "save_coa_tsv coauthors_with_affiliations filename files =
     (files(filename \<mapsto>
        \<lparr>file_delimiter = CHR 0x09,
         file_rows = write_rows coauthors_with_affiliations []\<rparr>),
      [Saved filename])"

record args =
  scholar_id :: string
  years_back :: int
  output_file :: string

text \<open>
  \<^verbatim>\<open>get_scholar_profile\<close>: an author entry returned by the source is a non-empty
  dictionary, hence true in \<^verbatim>\<open>if author\<close> and \<^verbatim>\<open>if profile\<close>.
\<close>

definition get_scholar_profile :: "world \<Rightarrow> string \<Rightarrow> error + scholar option" where
  "get_scholar_profile w sid =
     (case search_author_id w sid of
        Inl e \<Rightarrow> Inl e
      | Inr None \<Rightarrow> Inr None
      | Inr (Some a) \<Rightarrow>
          (case fill_author w a of Inl e \<Rightarrow> Inl e | Inr p \<Rightarrow> Inr (Some p)))"

text \<open>
  The main block. The result is the uncaught exception, if any, the file system and the
  standard output at the end of the run.
\<close>

definition main :: "world \<Rightarrow> args \<Rightarrow> fs \<Rightarrow> error option \<times> fs \<times> event list" where
  "main w a files =
     (let out0 = [Retrieving (scholar_id a)]
      in case get_scholar_profile w (scholar_id a) of
           Inl e \<Rightarrow> (Some e, files, out0)
         | Inr None \<Rightarrow> (None, files, out0 @ [NoProfile])
         | Inr (Some profile) \<Rightarrow>
             (let my_name = name profile;
                  year_cutoff = current_year w - years_back a;
                  out1 = out0 @ [ProfileFound my_name, ExtractingFrom year_cutoff]
              in case publications profile of
                   None \<Rightarrow> (Some KeyError, files, out1)
                 | Some papers \<Rightarrow>
                     (case get_unique_coauthors w papers year_cutoff my_name of
                        (Inl e, out2) \<Rightarrow> (Some e, files, out1 @ out2)
                      | (Inr unique_coauthors_with_years, out2) \<Rightarrow>
                          (let (coauthors_with_affiliations, out3) =
                                 get_validated_affiliations w unique_coauthors_with_years;
                               (files', out4) =
                                 save_coa_tsv coauthors_with_affiliations (output_file a) files
                           in (None, files',
                               out1 @ out2 @ [ValidatingAffiliations] @ out3 @ out4)))))"

section \<open>Sample data\<close>

text \<open>Concrete papers, candidates and data sources on which the results below are run.\<close>

definition sample_paper :: "string \<Rightarrow> pyval option \<Rightarrow> string option \<Rightarrow> paper" where
  "sample_paper t y a = \<lparr>bib = Some \<lparr>title = Some t, pub_year = y, author = a\<rparr>\<rparr>"

definition paper_2023 :: paper where
  "paper_2023 = sample_paper ''Sketching genomes'' (Some (PStr ''2023'')) (Some ''A B and C D'')"

definition paper_2021 :: paper where
  "paper_2021 = sample_paper ''Minimizers'' (Some (PStr ''2021'')) (Some ''C D and A B'')"

definition paper_2020 :: paper where
  "paper_2020 = sample_paper ''Earlier work'' (Some (PStr ''2020'')) (Some ''A B'')"

definition paper_no_year :: paper where
  "paper_no_year = sample_paper ''In preparation'' None (Some ''A B and C D and E F'')"

definition paper_bad_year :: paper where
  "paper_bad_year = sample_paper ''Preprint'' (Some (PStr ''n.d.'')) (Some ''A B and C D'')"

definition subject :: scholar where
  "subject = \<lparr>name = Some ''A B'', affiliation = Some ''UC Davis'',
               publications = Some [paper_2023, paper_2020, paper_no_year]\<rparr>"

text \<open>A profile whose name is written surname first.\<close>

definition subject_surname_first :: scholar where
  "subject_surname_first =
     \<lparr>name = Some ''Public, Jane'', affiliation = Some ''UC Davis'',
      publications =
        Some [sample_paper ''Joint work'' (Some (PStr ''2025'')) (Some ''Jane Public and C D'')]\<rparr>"

definition cand_no_affiliation :: scholar where
  "cand_no_affiliation =
     \<lparr>name = Some ''C D'', affiliation = None, publications = Some [paper_2023]\<rparr>"

definition cand_mit :: scholar where
  "cand_mit =
     \<lparr>name = Some ''C D'', affiliation = Some ''MIT'',
      publications = Some [sample_paper ''Indexing reads'' (Some (PStr ''2023'')) None]\<rparr>"

definition cand_other_years :: scholar where
  "cand_other_years =
     \<lparr>name = Some ''E F'', affiliation = Some ''ETH'', publications = Some [paper_2020]\<rparr>"

text \<open>
  A sample reading of strings: the strings of one to four ASCII digits are read as
  decimal numbers, every other string is taken as unreadable. The sample runs hand it
  only \<^verbatim>\<open>"2023"\<close>, \<^verbatim>\<open>"2021"\<close>, \<^verbatim>\<open>"2020"\<close>, \<^verbatim>\<open>"2025"\<close> and \<^verbatim>\<open>"n.d."\<close>, on
  which Python's \<^verbatim>\<open>int\<close> gives 2023, 2021, 2020, 2025 and \<^verbatim>\<open>ValueError\<close>.
\<close>

definition ascii_digit :: "char \<Rightarrow> bool" where
  "ascii_digit c = (48 \<le> (of_char c :: nat) \<and> (of_char c :: nat) \<le> 57)"

definition sample_int :: "string \<Rightarrow> int option" where
  "sample_int s =
     (if s \<noteq> [] \<and> length s \<le> 4 \<and> list_all ascii_digit s
      then Some (int (foldl (\<lambda>acc c. 10 * acc + (of_char c - 48)) 0 s))
      else None)"

text \<open>
  An environment with that reading, the year 2026, and a data source that knows one
  profile, answers the name search for two co-authors and fails on every other name;
  filling returns the entry as it is.
\<close>

definition sample_world :: "scholar \<Rightarrow> world" where
  "sample_world profile =
     \<lparr>int_of_str = sample_int,
      current_year = 2026,
      search_author_id = (\<lambda>sid. if sid = ''3HU8c9EAAAAJ'' then Inr (Some profile) else Inr None),
      search_author =
        (\<lambda>n. if n = ''D, C'' then Inr (Yield cand_no_affiliation (Yield cand_mit Stop))
             else if n = ''F, E'' then Inr (Yield cand_other_years Stop)
             else Inl (SourceError ''blocked'')),
      fill_author = (\<lambda>a. Inr a),
      fill_paper = (\<lambda>p. Inr p)\<rparr>"

definition default_args :: args where
  "default_args = \<lparr>scholar_id = ''3HU8c9EAAAAJ'', years_back = 4, output_file = ''NSF_COA.tsv''\<rparr>"

section \<open>Notions used to state the results\<close>

text \<open>The candidates a generator yields before it stops or raises.\<close>

fun yielded :: "'a gen \<Rightarrow> 'a list" where
  "yielded Stop = []"
| "yielded (Raise e) = []"
| "yielded (Yield x g) = x # yielded g"

text \<open>
  The test of the inner validation loop: a filled candidate has a publication whose year
  (\<^verbatim>\<open>"Unknown"\<close> when it has none) is in \<open>pub_years\<close>.
\<close>

definition has_matching_pub :: "scholar \<Rightarrow> pyval list \<Rightarrow> bool" where
  "has_matching_pub author_filled pub_years =
     (\<exists>pub \<in> set (case publications author_filled of None \<Rightarrow> [] | Some ps \<Rightarrow> ps).
        cand_pub_year pub \<in> set pub_years)"

text \<open>A string of one or more ASCII digits, such as a year.\<close>

definition digit_string :: "string \<Rightarrow> bool" where
  "digit_string s = (s \<noteq> [] \<and> list_all ascii_digit s)"

text \<open>
  For the list of what the loop body read from each retained paper (its names and its
  year): the names other than the subject's, and the years of the papers on which a name
  stands.
\<close>

definition coauthor_names :: "(string list \<times> pyval) list \<Rightarrow> string option \<Rightarrow> string set" where
  "coauthor_names recs my_name =
     set (filter (\<lambda>n. Some n \<noteq> my_name) (concat (map fst recs)))"

definition shared_years :: "(string list \<times> pyval) list \<Rightarrow> string \<Rightarrow> pyval set" where
  "shared_years recs n = set (map snd (filter (\<lambda>r. n \<in> set (fst r)) recs))"

text \<open>The year-set stored under a key of a dictionary, empty when the key is absent.\<close>

definition years_in :: "(string, pyval list) dict \<Rightarrow> string \<Rightarrow> pyval set" where
  "years_in d n = (case map_of d n of None \<Rightarrow> {} | Some ys \<Rightarrow> set ys)"

section \<open>Splitting and joining at a single character\<close>

text \<open>
  \<^verbatim>\<open>split(" ")\<close> cuts at every space, so its pieces contain no space, and joining
  them with a space gives the string back.
\<close>

lemma py_split_nonempty: "py_split sep s \<noteq> []"
  by (induction sep s rule: py_split.induct) (auto simp: Let_def)

lemma py_split_char_Cons:
  "py_split [c] (x # xs) =
     (if x = c then [] # py_split [c] xs
      else (x # hd (py_split [c] xs)) # tl (py_split [c] xs))"
  by (simp add: Let_def)

lemma py_split_char_no_sep: "c \<notin> set t \<Longrightarrow> py_split [c] t = [t]"
  by (induction t) (auto simp: Let_def)

lemma py_split_char_first:
  "c \<notin> set t \<Longrightarrow> py_split [c] (t @ c # r) = t # py_split [c] r"
  by (induction t) (auto simp: Let_def)

lemma py_split_char_tokens: "t \<in> set (py_split [c] s) \<Longrightarrow> c \<notin> set t"
proof (induction s arbitrary: t)
  case Nil
  then show ?case by simp
next
  case (Cons x xs)
  obtain h r where hr: "py_split [c] xs = h # r"
    using py_split_nonempty [of "[c]" xs] by (cases "py_split [c] xs") auto
  show ?case
  proof (cases "x = c")
    case True
    with Cons show ?thesis by (auto simp: Let_def)
  next
    case False
    with Cons.prems hr have "t = x # h \<or> t \<in> set r" by (auto simp: Let_def)
    with Cons.IH hr False show ?thesis by auto
  qed
qed

lemma py_join_Cons: "ts \<noteq> [] \<Longrightarrow> py_join sep (t # ts) = t @ sep @ py_join sep ts"
  by (cases ts) auto

lemma py_join_snoc: "ts \<noteq> [] \<Longrightarrow> py_join sep (ts @ [t]) = py_join sep ts @ sep @ t"
  by (induction sep ts rule: py_join.induct) (auto simp: py_join_Cons)

lemma py_join_split_char: "py_join [c] (py_split [c] s) = s"
proof (induction s)
  case Nil
  then show ?case by simp
next
  case (Cons x xs)
  obtain h r where hr: "py_split [c] xs = h # r"
    using py_split_nonempty [of "[c]" xs] by (cases "py_split [c] xs") auto
  with Cons show ?case by (cases r) (auto simp: Let_def py_join_Cons)
qed

lemma py_split_join_char:
  "ts \<noteq> [] \<Longrightarrow> \<forall>t \<in> set ts. c \<notin> set t \<Longrightarrow> py_split [c] (py_join [c] ts) = ts"
proof (induction "[c]" ts rule: py_join.induct)
  case 1
  then show ?case by simp
next
  case (2 x)
  then show ?case by (simp add: py_split_char_no_sep)
next
  case (3 x y ys)
  then show ?case by (simp add: py_split_char_first)
qed

lemma py_split_char_length: "c \<in> set s \<Longrightarrow> length (py_split [c] s) > 1"
proof -
  assume "c \<in> set s"
  then obtain t r where "s = t @ c # r" "c \<notin> set t"
    by (meson split_list_first)
  then show ?thesis
    using py_split_nonempty [of "[c]" r] by (simp add: py_split_char_first)
qed

lemma first_sep_unique:
  "c \<notin> set u \<Longrightarrow> c \<notin> set v \<Longrightarrow> u @ c # r = v @ c # r' \<Longrightarrow> u = v \<and> r = r'"
proof (induction u arbitrary: v)
  case Nil
  then show ?case by (cases v) auto
next
  case (Cons a u)
  then show ?case by (cases v) auto
qed

lemma reordered_name_multi:
  assumes "length ts > 1" "\<forall>t \<in> set ts. CHR '' '' \<notin> set t"
  shows "reordered_name (py_join '' '' ts) = last ts @ '', '' @ py_join '' '' (butlast ts)"
proof -
  from assms have "ts \<noteq> []" by auto
  with assms have "py_split '' '' (py_join '' '' ts) = ts"
    by (intro py_split_join_char) auto
  with assms show ?thesis by (simp add: reordered_name_def)
qed

lemma reordered_name_single:
  "CHR '' '' \<notin> set s \<Longrightarrow> reordered_name s = s"
  by (simp add: reordered_name_def py_split_char_no_sep)

lemma reordered_name_inj: 
  assumes "reordered_name a = reordered_name b" shows "a = b"
proof -
  let ?sp = "CHR '' ''"
  have shape: "\<exists>l j. reordered_name s = (l @ '','') @ ?sp # j \<and> s = j @ ?sp # l \<and> ?sp \<notin> set (l @ '','')"
    if "length (py_split '' '' s) > 1" for s
  proof -
    let ?ps = "py_split '' '' s"
    from that have ne: "?ps \<noteq> []" "butlast ?ps \<noteq> []" by (auto simp: butlast_conv_take)
    have "py_join '' '' (butlast ?ps @ [last ?ps]) = py_join '' '' (butlast ?ps) @ '' '' @ last ?ps"
      by (rule py_join_snoc [OF ne(2)])
    moreover have "butlast ?ps @ [last ?ps] = ?ps" using ne by simp
    ultimately have "py_join '' '' ?ps = py_join '' '' (butlast ?ps) @ '' '' @ last ?ps"
      by simp
    then have s: "s = py_join '' '' (butlast ?ps) @ ?sp # last ?ps"
      by (simp add: py_join_split_char)
    have "last ?ps \<in> set ?ps" using ne by simp
    then have "?sp \<notin> set (last ?ps)" by (rule py_split_char_tokens)
    then have "?sp \<notin> set (last ?ps @ '','')" by simp
    moreover have "reordered_name s = (last ?ps @ '','') @ ?sp # py_join '' '' (butlast ?ps)"
      using that by (simp add: reordered_name_def Let_def)
    ultimately show ?thesis using s by blast
  qed
  have single: "reordered_name s = s \<and> ?sp \<notin> set s" if "\<not> length (py_split '' '' s) > 1" for s
    using that py_split_char_length [of ?sp s] by (auto simp: reordered_name_def)
  show ?thesis
  proof (cases "length (py_split '' '' a) > 1"; cases "length (py_split '' '' b) > 1")
    assume A: "length (py_split '' '' a) > 1" and B: "length (py_split '' '' b) > 1"
    from shape [OF A] obtain l j where 1: "reordered_name a = (l @ '','') @ ?sp # j" "a = j @ ?sp # l" "?sp \<notin> set (l @ '','')" by blast
    from shape [OF B] obtain l' j' where 2: "reordered_name b = (l' @ '','') @ ?sp # j'" "b = j' @ ?sp # l'" "?sp \<notin> set (l' @ '','')" by blast
    from assms 1 2 have "(l @ '','') @ ?sp # j = (l' @ '','') @ ?sp # j'" by simp
    from first_sep_unique [OF 1(3) 2(3) this] have "l = l'" "j = j'" by auto
    with 1 2 show ?thesis by simp
  next
    assume A: "length (py_split '' '' a) > 1" and B: "\<not> length (py_split '' '' b) > 1"
    from shape [OF A] obtain l j where 1: "reordered_name a = (l @ '','') @ ?sp # j" by blast
    from single [OF B] assms 1 have "b = (l @ '','') @ ?sp # j" "?sp \<notin> set b" by simp_all
    then have False by (metis in_set_conv_decomp)
    then show ?thesis ..
  next
    assume A: "\<not> length (py_split '' '' a) > 1" and B: "length (py_split '' '' b) > 1"
    from shape [OF B] obtain l j where 1: "reordered_name b = (l @ '','') @ ?sp # j" by blast
    from single [OF A] assms 1 have "a = (l @ '','') @ ?sp # j" "?sp \<notin> set a" by simp_all
    then have False by (metis in_set_conv_decomp)
    then show ?thesis ..
  next
    assume A: "\<not> length (py_split '' '' a) > 1" and B: "\<not> length (py_split '' '' b) > 1"
    from single [OF A] single [OF B] assms show ?thesis by metis
  qed
qed

section \<open>The format of cleaned-up names\<close>

text \<open>
  Claim C5, as amended. The clean-up cuts a name at space characters and at nothing else.
  A name made of two or more non-empty tokens without a space, joined by single spaces,
  as "First Middle Last" is, is rewritten to the last token, a comma and a space, and the
  other tokens in their order joined by single spaces: "Last, First Middle". A name
  without a space is returned as it is, whatever other white space it contains. In
  particular "Jane Q Public" becomes "Public, Jane Q" and "Madonna" stays "Madonna".
\<close>

theorem nsf_name_cleanup_format:
  "(length ts > 1 \<and> (\<forall>t \<in> set ts. t \<noteq> [] \<and> CHR '' '' \<notin> set t) \<longrightarrow>
      nsf_name_cleanup [py_join '' '' ts] = [last ts @ '', '' @ py_join '' '' (butlast ts)])
   \<and> (CHR '' '' \<notin> set s \<longrightarrow> nsf_name_cleanup [s] = [s])
   \<and> nsf_name_cleanup [''Jane Q Public''] = [''Public, Jane Q'']
   \<and> nsf_name_cleanup [''Madonna''] = [''Madonna'']"
proof -
  have "nsf_name_cleanup [''Jane Q Public''] = [''Public, Jane Q'']"
    by (simp add: nsf_name_cleanup_def reordered_name_def)
  moreover have "nsf_name_cleanup [''Madonna''] = [''Madonna'']"
    by (simp add: nsf_name_cleanup_def reordered_name_def)
  ultimately show ?thesis
    by (simp add: nsf_name_cleanup_def reordered_name_multi reordered_name_single)
qed

theorem nsf_name_cleanup_format_witness:
  "length [''Ada'', ''King'', ''Lovelace''] > 1
   \<and> list_all (\<lambda>t. t \<noteq> [] \<and> CHR '' '' \<notin> set t) [''Ada'', ''King'', ''Lovelace'']
   \<and> nsf_name_cleanup [py_join '' '' [''Ada'', ''King'', ''Lovelace'']] = [''Lovelace, Ada King'']
   \<and> py_join '' '' [''Ada'', ''King'', ''Lovelace''] = ''Ada King Lovelace''
   \<and> CHR '' '' \<notin> set ''Plato''
   \<and> nsf_name_cleanup [''Plato''] = [''Plato'']"
  using nsf_name_cleanup_format [of "[''Ada'', ''King'', ''Lovelace'']" "''Plato''"]
  by simp

text \<open>
  The claim as it is written speaks of tokens separated by white space. A tab does not
  separate: a name of two words with a tab between them is returned as it is. Nor is a
  space at the start or the end of a name dropped: a single word with a leading space is
  not returned as it is, and a name with a trailing space gets an empty surname.
\<close>

theorem nsf_name_cleanup_whitespace_counterexample:
  "nsf_name_cleanup [''Jane'' @ [CHR 0x09] @ ''Public''] = [''Jane'' @ [CHR 0x09] @ ''Public'']
   \<and> nsf_name_cleanup ['' Madonna''] = [''Madonna, '']
   \<and> nsf_name_cleanup [''Jane Public ''] = ['', Jane Public'']"
  by (simp add: nsf_name_cleanup_def reordered_name_def)

section \<open>\<^verbatim>\<open>max\<close> does not depend on the order of iteration\<close>

text \<open>
  A Python set is iterated in an order the script does not control. The value of
  \<^verbatim>\<open>max\<close>, and whether it raises, depend only on the elements: on strings alone or
  integers alone it is the greatest element, on a mixture it raises \<^verbatim>\<open>TypeError\<close>.
\<close>

lemma max_loop_strings:
  assumes "\<forall>x \<in> set xs. \<exists>s. x = PStr s"
  shows "\<exists>s. max_loop (PStr a) xs = Inr (PStr s) \<and> PStr s \<in> set (PStr a # xs)
           \<and> (\<forall>t. PStr t \<in> set (PStr a # xs) \<longrightarrow> t \<le> s)"
  using assms
proof (induction xs arbitrary: a)
  case Nil
  then show ?case by simp
next
  case (Cons x xs)
  from Cons.prems obtain b where x: "x = PStr b" by auto
  from Cons.prems have rest: "\<forall>x \<in> set xs. \<exists>s. x = PStr s" by simp
  let ?m = "if a < b then b else a"
  from Cons.IH [OF rest, of ?m] obtain s where
    s: "max_loop (PStr ?m) xs = Inr (PStr s)" "PStr s \<in> set (PStr ?m # xs)"
       "\<forall>t. PStr t \<in> set (PStr ?m # xs) \<longrightarrow> t \<le> s" by blast
  have 1: "max_loop (PStr a) (x # xs) = Inr (PStr s)"
    using s(1) by (cases "a < b") (simp_all add: x)
  have 2: "PStr s \<in> set (PStr a # x # xs)" using s(2) by (auto simp: x split: if_splits)
  have "?m \<le> s" using s(3) by simp
  then have "a \<le> s" "b \<le> s" by (auto split: if_splits)
  with s(3) have 3: "\<forall>t. PStr t \<in> set (PStr a # x # xs) \<longrightarrow> t \<le> s" by (auto simp: x)
  from 1 2 3 show ?case by blast
qed

lemma max_loop_ints:
  assumes "\<forall>x \<in> set xs. \<exists>i. x = PInt i"
  shows "\<exists>i. max_loop (PInt a) xs = Inr (PInt i) \<and> PInt i \<in> set (PInt a # xs)
           \<and> (\<forall>j. PInt j \<in> set (PInt a # xs) \<longrightarrow> j \<le> i)"
  using assms
proof (induction xs arbitrary: a)
  case Nil
  then show ?case by simp
next
  case (Cons x xs)
  from Cons.prems obtain b where x: "x = PInt b" by auto
  from Cons.prems have rest: "\<forall>x \<in> set xs. \<exists>i. x = PInt i" by simp
  let ?m = "if a < b then b else a"
  from Cons.IH [OF rest, of ?m] obtain i where
    i: "max_loop (PInt ?m) xs = Inr (PInt i)" "PInt i \<in> set (PInt ?m # xs)"
       "\<forall>j. PInt j \<in> set (PInt ?m # xs) \<longrightarrow> j \<le> i" by blast
  have 1: "max_loop (PInt a) (x # xs) = Inr (PInt i)"
    using i(1) by (cases "a < b") (simp_all add: x)
  have 2: "PInt i \<in> set (PInt a # x # xs)" using i(2) by (auto simp: x split: if_splits)
  have "?m \<le> i" using i(3) by simp
  then have "a \<le> i" "b \<le> i" by (auto split: if_splits)
  with i(3) have 3: "\<forall>j. PInt j \<in> set (PInt a # x # xs) \<longrightarrow> j \<le> i" by (auto simp: x)
  from 1 2 3 show ?case by blast
qed

lemma max_loop_mixed:
  assumes "(\<exists>s. m = PStr s) \<and> (\<exists>i. PInt i \<in> set xs) \<or> (\<exists>i. m = PInt i) \<and> (\<exists>s. PStr s \<in> set xs)"
  shows "max_loop m xs = Inl TypeError"
  using assms
proof (induction xs arbitrary: m)
  case Nil
  then show ?case by simp
next
  case (Cons x xs)
  show ?case
  proof (cases "py_gt x m")
    case (Inl e)
    then have "e = TypeError" by (cases x; cases m) auto
    with Inl show ?thesis by simp
  next
    case (Inr b)
    then have same: "(\<exists>s t. x = PStr s \<and> m = PStr t) \<or> (\<exists>i j. x = PInt i \<and> m = PInt j)"
      by (cases x; cases m) auto
    let ?m = "if b then x else m"
    from same Cons.prems
    have "(\<exists>s. ?m = PStr s) \<and> (\<exists>i. PInt i \<in> set xs) \<or> (\<exists>i. ?m = PInt i) \<and> (\<exists>s. PStr s \<in> set xs)"
      by auto
    from Cons.IH [OF this] Inr show ?thesis by simp
  qed
qed

lemma py_max_strings:
  assumes "xs \<noteq> []" "\<forall>y \<in> set xs. \<exists>t. y = PStr t"
  shows "\<exists>s. py_max xs = Inr (PStr s) \<and> PStr s \<in> set xs
           \<and> (\<forall>t. PStr t \<in> set xs \<longrightarrow> t \<le> s)"
proof -
  from assms(1) obtain m r where xs: "xs = m # r" by (cases xs) auto
  from assms(2) obtain a where m: "m = PStr a" by (auto simp: xs)
  from assms(2) have "\<forall>x \<in> set r. \<exists>s. x = PStr s" by (simp add: xs)
  from max_loop_strings [OF this, of a] show ?thesis by (simp add: xs m)
qed

lemma py_max_ints:
  assumes "xs \<noteq> []" "\<forall>y \<in> set xs. \<exists>j. y = PInt j"
  shows "\<exists>i. py_max xs = Inr (PInt i) \<and> PInt i \<in> set xs
           \<and> (\<forall>j. PInt j \<in> set xs \<longrightarrow> j \<le> i)"
proof -
  from assms(1) obtain m r where xs: "xs = m # r" by (cases xs) auto
  from assms(2) obtain a where m: "m = PInt a" by (auto simp: xs)
  from assms(2) have "\<forall>x \<in> set r. \<exists>i. x = PInt i" by (simp add: xs)
  from max_loop_ints [OF this, of a] show ?thesis by (simp add: xs m)
qed

lemma py_max_mixed:
  assumes "PStr s \<in> set xs" "PInt i \<in> set xs"
  shows "py_max xs = Inl TypeError"
proof -
  from assms(1) obtain m r where xs: "xs = m # r" by (cases xs) auto
  have "max_loop m r = Inl TypeError"
  proof (rule max_loop_mixed, cases m)
    case (PStr a)
    with assms(2) show "(\<exists>s. m = PStr s) \<and> (\<exists>i. PInt i \<in> set r)
        \<or> (\<exists>i. m = PInt i) \<and> (\<exists>s. PStr s \<in> set r)"
      by (auto simp: xs)
  next
    case (PInt a)
    with assms(1) show "(\<exists>s. m = PStr s) \<and> (\<exists>i. PInt i \<in> set r)
        \<or> (\<exists>i. m = PInt i) \<and> (\<exists>s. PStr s \<in> set r)"
      by (auto simp: xs)
  qed
  then show ?thesis by (simp add: xs)
qed

lemma py_max_order_independent:
  assumes "set xs = set ys"
  shows "py_max xs = py_max ys"
proof (cases "xs = []")
  case True
  with assms show ?thesis by simp
next
  case False
  with assms have ne: "xs \<noteq> []" "ys \<noteq> []" by auto
  show ?thesis
  proof (cases "\<exists>s. PStr s \<in> set ys")
    case hasS: True
    show ?thesis
    proof (cases "\<exists>i. PInt i \<in> set ys")
      case True
      with hasS obtain s i where "PStr s \<in> set ys" "PInt i \<in> set ys" by blast
      then have "py_max ys = Inl TypeError" "py_max xs = Inl TypeError"
        using assms by (simp_all add: py_max_mixed)
      then show ?thesis by simp
    next
      case False
      have all: "\<forall>y \<in> set ys. \<exists>t. y = PStr t"
      proof
        fix y assume "y \<in> set ys"
        with False show "\<exists>t. y = PStr t" by (cases y) auto
      qed
      from py_max_strings [OF ne(2) all] obtain s where
        s: "py_max ys = Inr (PStr s)" "PStr s \<in> set ys" "\<forall>t. PStr t \<in> set ys \<longrightarrow> t \<le> s"
        by blast
      from all assms have "\<forall>y \<in> set xs. \<exists>t. y = PStr t" by simp
      from py_max_strings [OF ne(1) this] obtain s' where
        s': "py_max xs = Inr (PStr s')" "PStr s' \<in> set ys" "\<forall>t. PStr t \<in> set ys \<longrightarrow> t \<le> s'"
        unfolding assms by blast
      from s(2) s'(3) have "s \<le> s'" by simp
      moreover from s'(2) s(3) have "s' \<le> s" by simp
      ultimately show ?thesis using s(1) s'(1) by simp
    qed
  next
    case False
    have all: "\<forall>y \<in> set ys. \<exists>j. y = PInt j"
    proof
      fix y assume "y \<in> set ys"
      with False show "\<exists>j. y = PInt j" by (cases y) auto
    qed
    from py_max_ints [OF ne(2) all] obtain i where
      i: "py_max ys = Inr (PInt i)" "PInt i \<in> set ys" "\<forall>j. PInt j \<in> set ys \<longrightarrow> j \<le> i"
      by blast
    from all assms have "\<forall>y \<in> set xs. \<exists>j. y = PInt j" by simp
    from py_max_ints [OF ne(1) this] obtain i' where
      i': "py_max xs = Inr (PInt i')" "PInt i' \<in> set ys" "\<forall>j. PInt j \<in> set ys \<longrightarrow> j \<le> i'"
      unfolding assms by blast
    from i(2) i'(3) have "i \<le> i'" by simp
    moreover from i'(2) i(3) have "i' \<le> i" by simp
    ultimately show ?thesis using i(1) i'(1) by simp
  qed
qed

text \<open>
  What \<^verbatim>\<open>max\<close> returns is an element of its argument, all elements are of its type,
  and none is greater in the order of that type: code-point order on strings, the usual
  order on integers.
\<close>

lemma py_max_is_greatest:
  assumes "py_max ys = Inr m"
  shows "m \<in> set ys
     \<and> ((\<exists>s. m = PStr s \<and> (\<forall>y \<in> set ys. \<exists>t. y = PStr t \<and> t \<le> s))
        \<or> (\<exists>i. m = PInt i \<and> (\<forall>y \<in> set ys. \<exists>j. y = PInt j \<and> j \<le> i)))"
proof -
  from assms have ne: "ys \<noteq> []" by auto
  show ?thesis
  proof (cases "\<exists>s. PStr s \<in> set ys")
    case hasS: True
    have noI: "\<not> (\<exists>i. PInt i \<in> set ys)"
    proof
      assume "\<exists>i. PInt i \<in> set ys"
      with hasS obtain s i where "PStr s \<in> set ys" "PInt i \<in> set ys" by blast
      then have "py_max ys = Inl TypeError" by (rule py_max_mixed)
      with assms show False by simp
    qed
    have all: "\<forall>y \<in> set ys. \<exists>t. y = PStr t"
    proof
      fix y assume "y \<in> set ys"
      with noI show "\<exists>t. y = PStr t" by (cases y) auto
    qed
    from py_max_strings [OF ne all] obtain s where
      s: "py_max ys = Inr (PStr s)" "PStr s \<in> set ys" "\<forall>t. PStr t \<in> set ys \<longrightarrow> t \<le> s"
      by blast
    from s(1) assms have m: "m = PStr s" by simp
    have "\<forall>y \<in> set ys. \<exists>t. y = PStr t \<and> t \<le> s"
    proof
      fix y assume y: "y \<in> set ys"
      with all obtain t where "y = PStr t" by auto
      with y s(3) show "\<exists>t. y = PStr t \<and> t \<le> s" by auto
    qed
    with m s(2) show ?thesis by blast
  next
    case False
    have all: "\<forall>y \<in> set ys. \<exists>j. y = PInt j"
    proof
      fix y assume "y \<in> set ys"
      with False show "\<exists>j. y = PInt j" by (cases y) auto
    qed
    from py_max_ints [OF ne all] obtain i where
      i: "py_max ys = Inr (PInt i)" "PInt i \<in> set ys" "\<forall>j. PInt j \<in> set ys \<longrightarrow> j \<le> i"
      by blast
    from i(1) assms have m: "m = PInt i" by simp
    have "\<forall>y \<in> set ys. \<exists>j. y = PInt j \<and> j \<le> i"
    proof
      fix y assume y: "y \<in> set ys"
      with all obtain j where "y = PInt j" by auto
      with y i(3) show "\<exists>j. y = PInt j \<and> j \<le> i" by auto
    qed
    with m i(2) show ?thesis by blast
  qed
qed

section \<open>The year filter\<close>

lemmas sample_defs =
  sample_paper_def paper_2023_def paper_2021_def paper_2020_def paper_no_year_def
  paper_bad_year_def

lemmas sample_int_defs = sample_int_def ascii_digit_def

lemma sample_int_years:
  "sample_int ''2023'' = Some 2023" "sample_int ''2021'' = Some 2021"
  "sample_int ''2020'' = Some 2020" "sample_int ''2025'' = Some 2025"
  "sample_int ''n.d.'' = None"
  by (simp_all add: sample_int_defs)

text \<open>Whatever the reading of strings, \<^verbatim>\<open>int\<close> raises nothing but \<^verbatim>\<open>ValueError\<close>.\<close>

lemma py_int_error: "py_int read y = Inl e \<Longrightarrow> e = ValueError"
  by (cases y) (auto split: option.splits)

lemma filter_year_error: "filter_year w p = Inl e \<Longrightarrow> e = ValueError"
  unfolding filter_year_def by (rule py_int_error)

lemma filter_papers_error: "filter_papers w c ps = Inl e \<Longrightarrow> e = ValueError"
  by (induction ps) (auto split: sum.splits dest: filter_year_error)

lemma filter_papers_raises:
  "p \<in> set ps \<Longrightarrow> filter_year w p = Inl e \<Longrightarrow> filter_papers w c ps = Inl ValueError"
proof (induction ps)
  case Nil
  then show ?case by simp
next
  case (Cons q qs)
  show ?case
  proof (cases "filter_year w q")
    case (Inl e')
    then show ?thesis using filter_year_error [OF Inl] by simp
  next
    case (Inr n)
    with Cons have "filter_papers w c qs = Inl ValueError" by auto
    with Inr show ?thesis by simp
  qed
qed

lemma filter_papers_returns:
  "\<forall>p \<in> set ps. \<exists>n. filter_year w p = Inr n \<Longrightarrow>
   filter_papers w c ps =
     Inr (filter (\<lambda>p. case filter_year w p of Inr n \<Rightarrow> n \<ge> c | Inl _ \<Rightarrow> False) ps)"
  by (induction ps) auto

text \<open>
  Claim C3, as amended. Whatever strings the interpreter's \<^verbatim>\<open>int\<close> reads: when it
  reads every year that is present, the filter returns, in their order, exactly the
  publications whose year, as \<^verbatim>\<open>int\<close> reads it, is at least the cutoff (the cutoff
  year itself included), together with the publications without a year if and only if
  the cutoff does not exceed the current year: a missing year counts as the current year.
\<close>

theorem year_filter_retains:
  assumes "\<forall>p \<in> set papers. \<forall>y. get_pub_year p = Some y \<longrightarrow>
             (\<exists>n. py_int (int_of_str w) y = Inr n)"
  shows "filter_papers w year_cutoff papers =
           Inr (filter (\<lambda>p. case get_pub_year p of
                               None \<Rightarrow> year_cutoff \<le> current_year w
                             | Some y \<Rightarrow>
                                 (case py_int (int_of_str w) y of
                                    Inr n \<Rightarrow> year_cutoff \<le> n
                                  | Inl _ \<Rightarrow> False))
                  papers)"
proof -
  have "\<forall>p \<in> set papers. \<exists>n. filter_year w p = Inr n"
    using assms by (auto simp: filter_year_def split: option.splits)
  then have "filter_papers w year_cutoff papers =
     Inr (filter (\<lambda>p. case filter_year w p of Inr n \<Rightarrow> n \<ge> year_cutoff | Inl _ \<Rightarrow> False)
            papers)"
    by (rule filter_papers_returns)
  moreover have "(\<lambda>p. case filter_year w p of Inr n \<Rightarrow> n \<ge> year_cutoff | Inl _ \<Rightarrow> False) =
    (\<lambda>p. case get_pub_year p of
            None \<Rightarrow> year_cutoff \<le> current_year w
          | Some y \<Rightarrow>
              (case py_int (int_of_str w) y of
                 Inr n \<Rightarrow> year_cutoff \<le> n
               | Inl _ \<Rightarrow> False))"
    by (auto simp: filter_year_def fun_eq_iff split: option.splits)
  ultimately show ?thesis by simp
qed

theorem year_filter_retains_witness:
  "list_all (\<lambda>p. get_pub_year p = None \<or> get_pub_year p = Some (PStr ''2023'')
                  \<or> get_pub_year p = Some (PStr ''2020''))
     [paper_2023, paper_2020, paper_no_year]
   \<and> py_int (int_of_str (sample_world subject)) (PStr ''2023'') = Inr 2023
   \<and> py_int (int_of_str (sample_world subject)) (PStr ''2020'') = Inr 2020
   \<and> current_year (sample_world subject) = 2026
   \<and> filter_papers (sample_world subject) 2020 [paper_2023, paper_2020, paper_no_year]
       = Inr [paper_2023, paper_2020, paper_no_year]
   \<and> filter_papers (sample_world subject) 2021 [paper_2023, paper_2020, paper_no_year]
       = Inr [paper_2023, paper_no_year]"
proof -
  let ?w = "sample_world subject"
  have y: "get_pub_year paper_2023 = Some (PStr ''2023'')"
    "get_pub_year paper_2020 = Some (PStr ''2020'')"
    "get_pub_year paper_no_year = None"
    by (simp_all add: get_pub_year_def sample_defs)
  have i: "int_of_str ?w = sample_int" "current_year ?w = 2026"
    by (simp_all add: sample_world_def)
  have h: "\<forall>p \<in> set [paper_2023, paper_2020, paper_no_year].
             \<forall>y. get_pub_year p = Some y \<longrightarrow> (\<exists>n. py_int (int_of_str ?w) y = Inr n)"
    by (simp add: y i sample_int_years)
  show ?thesis
    using year_filter_retains [OF h, of 2020] year_filter_retains [OF h, of 2021]
    by (simp add: y i sample_int_years)
qed

text \<open>
  The claim as it is written fails when the cutoff lies after the current year (a
  negative \<^verbatim>\<open>--years-back\<close>): a publication without a year is then dropped, and
  the run writes a file without the co-authors of that publication. No string is handed
  to \<^verbatim>\<open>int\<close> in this run.
\<close>

theorem year_filter_missing_year_counterexample:
  "get_pub_year paper_no_year = None
   \<and> current_year (sample_world subject) = 2026
   \<and> filter_papers (sample_world subject) (2026 - (- 4)) [paper_no_year] = Inr []
   \<and> main (sample_world (subject\<lparr>publications := Some [paper_no_year]\<rparr>))
        (default_args\<lparr>years_back := - 4\<rparr>) Map.empty
      = (None, [''NSF_COA.tsv'' \<mapsto> \<lparr>file_delimiter = CHR 0x09, file_rows = []\<rparr>],
         [Retrieving ''3HU8c9EAAAAJ'', ProfileFound (Some ''A B''), ExtractingFrom 2030,
          Processing 0 2030, ValidatingAffiliations, Validating 0, Saved ''NSF_COA.tsv''])"
  by (simp add: get_pub_year_def sample_defs filter_year_def main_def default_args_def
      get_scholar_profile_def sample_world_def subject_def get_unique_coauthors_def
      rename_keys_def get_validated_affiliations_def save_coa_tsv_def)

section \<open>A year that cannot be read\<close>

lemma get_unique_coauthors_raises:
  assumes "p \<in> set papers" "get_pub_year p = Some y" "py_int (int_of_str w) y = Inl e"
  shows "get_unique_coauthors w papers year_cutoff my_name = (Inl ValueError, [])"
proof -
  from assms have "filter_year w p = Inl e" by (simp add: filter_year_def)
  with assms(1) have "filter_papers w year_cutoff papers = Inl ValueError"
    by (rule filter_papers_raises)
  then show ?thesis by (simp add: get_unique_coauthors_def)
qed

text \<open>
  Claim C10. Whatever strings the interpreter's \<^verbatim>\<open>int\<close> reads: if some publication
  of the profile carries a year on which \<^verbatim>\<open>int\<close> raises, the year filter raises
  \<^verbatim>\<open>ValueError\<close>, nothing catches it, and the run ends with the file system as it was:
  nothing is written. A publication without a year does not raise; the filter reads the
  current year for it.
\<close>

theorem unparseable_year_aborts:
  assumes "p \<in> set papers" "get_pub_year p = Some y" "py_int (int_of_str w) y = Inl e"
    and "get_scholar_profile w (scholar_id a) = Inr (Some profile)"
    and "publications profile = Some papers"
  shows "fst (get_unique_coauthors w papers year_cutoff my_name) = Inl ValueError
     \<and> main w a files =
         (Some ValueError, files,
          [Retrieving (scholar_id a), ProfileFound (name profile),
           ExtractingFrom (current_year w - years_back a)])
     \<and> (\<forall>q. get_pub_year q = None \<longrightarrow> filter_year w q = Inr (current_year w))"
proof -
  have g: "get_unique_coauthors w papers c m = (Inl ValueError, [])" for c m
    using assms(1-3) by (rule get_unique_coauthors_raises)
  have "main w a files =
         (Some ValueError, files,
          [Retrieving (scholar_id a), ProfileFound (name profile),
           ExtractingFrom (current_year w - years_back a)])"
    using assms(4,5) by (simp add: main_def g)
  moreover have "\<forall>q. get_pub_year q = None \<longrightarrow> filter_year w q = Inr (current_year w)"
    by (simp add: filter_year_def)
  ultimately show ?thesis by (simp add: g)
qed

lemmas world_defs =
  sample_world_def subject_def cand_no_affiliation_def cand_mit_def cand_other_years_def
  default_args_def

theorem unparseable_year_aborts_witness:
  "paper_bad_year \<in> set [paper_2023, paper_bad_year]
   \<and> get_pub_year paper_bad_year = Some (PStr ''n.d.'')
   \<and> py_int (int_of_str (sample_world (subject\<lparr>publications := Some [paper_2023, paper_bad_year]\<rparr>)))
        (PStr ''n.d.'') = Inl ValueError
   \<and> main (sample_world (subject\<lparr>publications := Some [paper_2023, paper_bad_year]\<rparr>))
        default_args Map.empty =
       (Some ValueError, Map.empty,
        [Retrieving ''3HU8c9EAAAAJ'', ProfileFound (Some ''A B''), ExtractingFrom 2022])
   \<and> filter_year (sample_world (subject\<lparr>publications := Some [paper_2023, paper_bad_year]\<rparr>))
        paper_no_year = Inr 2026"
proof -
  let ?w = "sample_world (subject\<lparr>publications := Some [paper_2023, paper_bad_year]\<rparr>)"
  have 1: "paper_bad_year \<in> set [paper_2023, paper_bad_year]" by simp
  have 2: "get_pub_year paper_bad_year = Some (PStr ''n.d.'')"
    by (simp add: get_pub_year_def sample_defs)
  have 3: "py_int (int_of_str ?w) (PStr ''n.d.'') = Inl ValueError"
    by (simp add: sample_world_def sample_int_years)
  have 4: "get_scholar_profile ?w (scholar_id default_args)
             = Inr (Some (subject\<lparr>publications := Some [paper_2023, paper_bad_year]\<rparr>))"
    by (simp add: get_scholar_profile_def sample_world_def default_args_def)
  have 5: "publications (subject\<lparr>publications := Some [paper_2023, paper_bad_year]\<rparr>)
             = Some [paper_2023, paper_bad_year]" by simp
  have 6: "get_pub_year paper_no_year = None" by (simp add: get_pub_year_def sample_defs)
  have 7: "current_year ?w = 2026" by (simp add: sample_world_def)
  have 8: "name (subject\<lparr>publications := Some [paper_2023, paper_bad_year]\<rparr>) = Some ''A B''"
    by (simp add: subject_def)
  have 9: "scholar_id default_args = ''3HU8c9EAAAAJ''" "years_back default_args = 4"
    by (simp_all add: default_args_def)
  from unparseable_year_aborts [OF 1 2 3 4 5, of 0 None Map.empty] 6
  have "main ?w default_args Map.empty =
       (Some ValueError, Map.empty,
        [Retrieving ''3HU8c9EAAAAJ'', ProfileFound (Some ''A B''), ExtractingFrom 2022])"
    and "filter_year ?w paper_no_year = Inr 2026"
    by (simp_all add: 7 8 9)
  with 1 2 3 show ?thesis by (intro conjI)
qed

section \<open>Export\<close>

lemma write_rows_eq: "write_rows d rows = rows @ map coa_row d"
  by (induction d arbitrary: rows) auto

text \<open>
  Claim C8. The export writes the named file with the tab as delimiter and one row for
  each entry of the co-author mapping, in the mapping's order; the row of an entry is the
  five fields \<^verbatim>\<open>"A:"\<close>, name, affiliation, the empty string and the latest shared
  year. What the file held before does not matter, and no other file changes.
\<close>

theorem save_coa_tsv_rows:
  assumes "save_coa_tsv d filename files = (files', out)"
  shows "\<exists>rows. files' filename = Some \<lparr>file_delimiter = CHR 0x09, file_rows = rows\<rparr>
           \<and> length rows = length d
           \<and> (\<forall>i < length d.
                 rows ! i = [PStr ''A:'', PStr (fst (d ! i)), PStr (fst (snd (d ! i))),
                             PStr [], snd (snd (d ! i))])
           \<and> (\<forall>f. f \<noteq> filename \<longrightarrow> files' f = files f)"
proof -
  from assms have f: "files' = files(filename \<mapsto> \<lparr>file_delimiter = CHR 0x09, file_rows = map coa_row d\<rparr>)"
    by (simp add: save_coa_tsv_def write_rows_eq)
  have "map coa_row d ! i = [PStr ''A:'', PStr (fst (d ! i)), PStr (fst (snd (d ! i))),
                             PStr [], snd (snd (d ! i))]" if "i < length d" for i
    using that by (simp add: coa_row_def split: prod.splits)
  with f show ?thesis by simp
qed

theorem save_coa_tsv_rows_witness:
  "fst (save_coa_tsv [(''D, C'', ''MIT'', PStr ''2023''), (''F, E'', ''Unknown Institution'', PStr ''Unknown'')]
         ''NSF_COA.tsv'' [''NSF_COA.tsv'' \<mapsto> \<lparr>file_delimiter = CHR '','', file_rows = [[PStr ''stale'']]\<rparr>,
          ''notes.txt'' \<mapsto> \<lparr>file_delimiter = CHR '','', file_rows = [[PStr ''keep'']]\<rparr>])
       ''NSF_COA.tsv''
     = Some \<lparr>file_delimiter = CHR 0x09,
             file_rows =
               [[PStr ''A:'', PStr ''D, C'', PStr ''MIT'', PStr [], PStr ''2023''],
                [PStr ''A:'', PStr ''F, E'', PStr ''Unknown Institution'', PStr [],
                 PStr ''Unknown'']]\<rparr>
   \<and> fst (save_coa_tsv [(''D, C'', ''MIT'', PStr ''2023''), (''F, E'', ''Unknown Institution'', PStr ''Unknown'')]
         ''NSF_COA.tsv'' [''NSF_COA.tsv'' \<mapsto> \<lparr>file_delimiter = CHR '','', file_rows = [[PStr ''stale'']]\<rparr>,
          ''notes.txt'' \<mapsto> \<lparr>file_delimiter = CHR '','', file_rows = [[PStr ''keep'']]\<rparr>])
       ''notes.txt''
     = Some \<lparr>file_delimiter = CHR '','', file_rows = [[PStr ''keep'']]\<rparr>"
proof -
  let ?d = "[(''D, C'', ''MIT'', PStr ''2023''), (''F, E'', ''Unknown Institution'', PStr ''Unknown'')]"
  let ?fs = "[''NSF_COA.tsv'' \<mapsto> \<lparr>file_delimiter = CHR '','', file_rows = [[PStr ''stale'']]\<rparr>,
          ''notes.txt'' \<mapsto> \<lparr>file_delimiter = CHR '','', file_rows = [[PStr ''keep'']]\<rparr>]"
  obtain files' out where s: "save_coa_tsv ?d ''NSF_COA.tsv'' ?fs = (files', out)"
    by (cases "save_coa_tsv ?d ''NSF_COA.tsv'' ?fs") 
  from save_coa_tsv_rows [OF s] obtain rows where
    r: "files' ''NSF_COA.tsv'' = Some \<lparr>file_delimiter = CHR 0x09, file_rows = rows\<rparr>"
    "length rows = 2" "\<forall>i < 2. rows ! i = [PStr ''A:'', PStr (fst (?d ! i)), PStr (fst (snd (?d ! i))),
                             PStr [], snd (snd (?d ! i))]"
    "\<forall>f. f \<noteq> ''NSF_COA.tsv'' \<longrightarrow> files' f = ?fs f"
    by auto
  from r(3) have "rows ! 0 = [PStr ''A:'', PStr ''D, C'', PStr ''MIT'', PStr [], PStr ''2023'']"
    "rows ! 1 = [PStr ''A:'', PStr ''F, E'', PStr ''Unknown Institution'', PStr [], PStr ''Unknown'']"
    by simp_all
  with r(2) have "rows = [[PStr ''A:'', PStr ''D, C'', PStr ''MIT'', PStr [], PStr ''2023''],
             [PStr ''A:'', PStr ''F, E'', PStr ''Unknown Institution'', PStr [], PStr ''Unknown'']]"
    by (cases rows; cases "tl rows"; cases "tl (tl rows)") auto
  moreover from r(4) have "files' ''notes.txt''
      = Some \<lparr>file_delimiter = CHR '','', file_rows = [[PStr ''keep'']]\<rparr>" by simp
  ultimately show ?thesis using r(1) s by simp
qed

section \<open>The batch of look-ups\<close>

lemma dict_set_fresh: "k \<notin> fst ` set d \<Longrightarrow> dict_set d k v = d @ [(k, v)]"
  by (induction d) auto

lemma validate_loop_eq:
  "distinct (map fst d) \<Longrightarrow> fst ` set d \<inter> fst ` set acc = {} \<Longrightarrow>
   validate_loop w d acc out =
     (acc @ map (\<lambda>(c, ys). (c, case validate_one w c ys of
                                   Inr r \<Rightarrow> r
                                 | Inl e \<Rightarrow> (''Unknown Institution'', PStr ''Unknown''))) d,
      out @ concat (map (\<lambda>(c, ys). case validate_one w c ys of
                                      Inr r \<Rightarrow> []
                                    | Inl e \<Rightarrow> [ErrorRetrieving c e]) d))"
proof (induction d arbitrary: acc out)
  case Nil
  then show ?case by simp
next
  case (Cons item d)
  obtain c ys where item: "item = (c, ys)" by (cases item)
  from Cons.prems item have fresh: "c \<notin> fst ` set acc" by auto
  from Cons.prems item have d: "distinct (map fst d)" and c: "c \<notin> fst ` set d" by auto
  have disj: "fst ` set d \<inter> fst ` set (acc @ [(c, v)]) = {}" for v
    using Cons.prems c item by auto
  show ?case
  proof (cases "validate_one w c ys")
    case (Inl e)
    then show ?thesis
      using Cons.IH [OF d disj] by (simp add: item dict_set_fresh [OF fresh])
  next
    case (Inr r)
    then show ?thesis
      using Cons.IH [OF d disj] by (simp add: item dict_set_fresh [OF fresh])
  qed
qed

lemma get_validated_affiliations_eq:
  assumes "distinct (map fst d)"
  shows "get_validated_affiliations w d =
     (map (\<lambda>(c, ys). (c, case validate_one w c ys of
                              Inr r \<Rightarrow> r
                            | Inl e \<Rightarrow> (''Unknown Institution'', PStr ''Unknown''))) d,
      Validating (length d) #
        concat (map (\<lambda>(c, ys). case validate_one w c ys of
                                  Inr r \<Rightarrow> []
                                | Inl e \<Rightarrow> [ErrorRetrieving c e]) d))"
  unfolding get_validated_affiliations_def
  using validate_loop_eq [OF assms, of "[]" w "[Validating (length d)]"] by simp

lemma get_validated_affiliations_keys:
  "distinct (map fst d) \<Longrightarrow> map fst (fst (get_validated_affiliations w d)) = map fst d"
  by (simp add: get_validated_affiliations_eq comp_def case_prod_unfold)

lemma map_of_map_entry:
  "distinct (map fst d) \<Longrightarrow> (c, ys) \<in> set d \<Longrightarrow>
   map_of (map (\<lambda>(c, ys). (c, f c ys)) d) c = Some (f c ys)"
  by (induction d) (auto simp: rev_image_eqI)

lemma get_validated_affiliations_lookup:
  assumes "distinct (map fst d)" "(c, ys) \<in> set d"
  shows "map_of (fst (get_validated_affiliations w d)) c =
           Some (case validate_one w c ys of
                   Inr r \<Rightarrow> r
                 | Inl e \<Rightarrow> (''Unknown Institution'', PStr ''Unknown''))"
  using map_of_map_entry [OF assms,
      of "\<lambda>c ys. case validate_one w c ys of
                   Inr r \<Rightarrow> r
                 | Inl e \<Rightarrow> (''Unknown Institution'', PStr ''Unknown'')"]
  by (simp add: get_validated_affiliations_eq [OF assms(1)])




section \<open>One look-up\<close>

lemma scan_pubs_eq:
  "scan_pubs pubs ys aff va = (if \<exists>pub \<in> set pubs. cand_pub_year pub \<in> set ys then aff else va)"
  by (induction pubs) auto

lemma scan_results_no_match:
  assumes "\<forall>cand \<in> set (yielded g). \<forall>af. fill_author w cand = Inr af \<longrightarrow> \<not> has_matching_pub af ys"
    and "scan_results w g ys ''Unknown Institution'' = Inr r"
  shows "r = ''Unknown Institution''"
  using assms
proof (induction g)
  case Stop
  then show ?case by simp
next
  case (Yield cand rest)
  from Yield.prems(2) obtain af where af: "fill_author w cand = Inr af"
    by (cases "fill_author w cand") auto
  with Yield.prems(1) have "\<not> has_matching_pub af ys" by simp
  then have "scan_pubs (case publications af of None \<Rightarrow> [] | Some ps \<Rightarrow> ps) ys a
               ''Unknown Institution'' = ''Unknown Institution''" for a
    by (auto simp: scan_pubs_eq has_matching_pub_def)
  with Yield.prems(2) af have "scan_results w rest ys ''Unknown Institution'' = Inr r"
    by (simp add: Let_def)
  with Yield.IH Yield.prems(1) show ?case by simp
next
  case (Raise e)
  then show ?case by simp
qed

text \<open>
  A candidate with a matching publication and an affiliation other than
  \<^verbatim>\<open>"Unknown Institution"\<close> ends the search: the rest of the generator is not advanced,
  whatever it would yield or raise.
\<close>

lemma scan_results_stops:
  assumes "fill_author w cand = Inr af" "has_matching_pub af ys"
    and "affiliation af = Some a" "a \<noteq> ''Unknown Institution''"
  shows "scan_results w (Yield cand rest) ys va = Inr a"
  using assms by (simp add: scan_pubs_eq has_matching_pub_def Let_def)

lemma validate_one_latest:
  assumes "validate_one w c ys = Inr (a, latest)"
  shows "if ys = [] then latest = PStr ''Unknown'' else py_max ys = Inr latest"
  using assms by (auto simp: validate_one_def split: sum.splits if_splits)

text \<open>
  Claim C2, as amended. When the look-up of a co-author raises nothing and no candidate
  of the search has a publication year in the co-author's year-set, the pair recorded
  for the co-author is \<^verbatim>\<open>"Unknown Institution"\<close> together with the latest shared year:
  the maximum of the year-set, or \<^verbatim>\<open>"Unknown"\<close> for an empty year-set.
\<close>

theorem no_match_gives_unknown_institution:
  assumes "distinct (map fst d)" "(c, ys) \<in> set d"
    and "search_author w c = Inr g"
    and "\<forall>cand \<in> set (yielded g). \<forall>af. fill_author w cand = Inr af \<longrightarrow> \<not> has_matching_pub af ys"
    and "validate_one w c ys = Inr r"
  shows "\<exists>latest. map_of (fst (get_validated_affiliations w d)) c
                     = Some (''Unknown Institution'', latest)
           \<and> (if ys = [] then latest = PStr ''Unknown'' else py_max ys = Inr latest)"
proof -
  obtain a latest where r: "r = (a, latest)" by (cases r)
  from assms(3,5) r have "scan_results w g ys ''Unknown Institution'' = Inr a"
    by (auto simp: validate_one_def split: sum.splits)
  with assms(4) have "a = ''Unknown Institution''" by (rule scan_results_no_match)
  moreover have "map_of (fst (get_validated_affiliations w d)) c = Some r"
    using get_validated_affiliations_lookup [OF assms(1,2), of w] assms(5) by simp
  moreover have "if ys = [] then latest = PStr ''Unknown'' else py_max ys = Inr latest"
    using assms(5) r validate_one_latest by blast
  ultimately show ?thesis using r by blast
qed

theorem no_match_gives_unknown_institution_witness:
  "search_author (sample_world subject) ''F, E'' = Inr (Yield cand_other_years Stop)
   \<and> \<not> has_matching_pub cand_other_years [PStr ''2023'', PStr ''2021'']
   \<and> validate_one (sample_world subject) ''F, E'' [PStr ''2023'', PStr ''2021'']
        = Inr (''Unknown Institution'', PStr ''2023'')
   \<and> map_of (fst (get_validated_affiliations (sample_world subject)
                [(''D, C'', [PStr ''2023'']), (''F, E'', [PStr ''2023'', PStr ''2021''])])) ''F, E''
        = Some (''Unknown Institution'', PStr ''2023'')
   \<and> py_max [PStr ''2023'', PStr ''2021''] = Inr (PStr ''2023'')"
proof -
  let ?w = "sample_world subject"
  let ?ys = "[PStr ''2023'', PStr ''2021'']"
  let ?d = "[(''D, C'', [PStr ''2023'']), (''F, E'', ?ys)]"
  have 1: "distinct (map fst ?d)" by simp
  have 2: "(''F, E'', ?ys) \<in> set ?d" by simp
  have 3: "search_author ?w ''F, E'' = Inr (Yield cand_other_years Stop)"
    by (simp add: sample_world_def)
  have n: "\<not> has_matching_pub cand_other_years ?ys"
    by (simp add: has_matching_pub_def cand_other_years_def cand_pub_year_def get_pub_year_def
        sample_defs)
  have f: "fill_author ?w cand = Inr cand" for cand by (simp add: sample_world_def)
  have 4: "\<forall>cand \<in> set (yielded (Yield cand_other_years Stop)).
             \<forall>af. fill_author ?w cand = Inr af \<longrightarrow> \<not> has_matching_pub af ?ys"
    using n by (simp add: f)
  have m: "py_max ?ys = Inr (PStr ''2023'')" by simp
  have 5: "validate_one ?w ''F, E'' ?ys = Inr (''Unknown Institution'', PStr ''2023'')"
    by (simp add: validate_one_def sample_world_def cand_other_years_def cand_pub_year_def
        get_pub_year_def sample_defs)
  from no_match_gives_unknown_institution [OF 1 2 3 4 5] m
  show ?thesis using 3 n 5 by (auto simp del: map_of.simps)
qed

text \<open>
  The claim as it is written names the year \<^verbatim>\<open>"Unknown"\<close>; the year recorded for a
  co-author met in 2023 and not validated is \<^verbatim>\<open>"2023"\<close>.
\<close>

theorem no_match_unknown_year_counterexample:
  "search_author (sample_world subject) ''F, E'' = Inr (Yield cand_other_years Stop)
   \<and> fill_author (sample_world subject) cand_other_years = Inr cand_other_years
   \<and> \<not> has_matching_pub cand_other_years [PStr ''2023'']
   \<and> get_validated_affiliations (sample_world subject) [(''F, E'', [PStr ''2023''])]
        = ([(''F, E'', ''Unknown Institution'', PStr ''2023'')], [Validating 1])"
  by (simp add: get_validated_affiliations_def validate_one_def sample_world_def
      has_matching_pub_def cand_other_years_def cand_pub_year_def get_pub_year_def sample_defs)

text \<open>
  Claim C1, at an input on which the script departs from it. The first candidate has a
  publication of 2023, a year of the co-author's year-set, and no affiliation field, so
  its affiliation string is the default \<^verbatim>\<open>"Unknown Institution"\<close>; the loop over the
  candidates does not stop there: the second candidate is filled and its affiliation is
  the one recorded.
\<close>

theorem first_validated_candidate_does_not_stop_search:
  "search_author (sample_world subject) ''D, C''
     = Inr (Yield cand_no_affiliation (Yield cand_mit Stop))
   \<and> fill_author (sample_world subject) cand_no_affiliation = Inr cand_no_affiliation
   \<and> has_matching_pub cand_no_affiliation [PStr ''2023'']
   \<and> affiliation cand_no_affiliation = None
   \<and> validate_one (sample_world subject) ''D, C'' [PStr ''2023''] = Inr (''MIT'', PStr ''2023'')
   \<and> get_validated_affiliations (sample_world subject) [(''D, C'', [PStr ''2023''])]
        = ([(''D, C'', ''MIT'', PStr ''2023'')], [Validating 1])"
  by (simp add: get_validated_affiliations_def validate_one_def sample_world_def
      has_matching_pub_def cand_no_affiliation_def cand_mit_def cand_pub_year_def
      get_pub_year_def sample_defs)

section \<open>The dictionary of co-authors\<close>

lemma map_of_dict_set: "map_of (dict_set d k v) k' = (if k' = k then Some v else map_of d k')"
  by (induction d) auto

lemma keys_dict_set: "fst ` set (dict_set d k v) = insert k (fst ` set d)"
proof (induction d)
  case Nil
  show ?case by simp
next
  case (Cons a d)
  obtain k' v' where a: "a = (k', v')" by (cases a)
  show ?case
  proof (cases "k' = k")
    case True
    then show ?thesis by (simp add: a)
  next
    case False
    then show ?thesis using Cons.IH by (simp add: a insert_commute)
  qed
qed

lemma distinct_dict_set: "distinct (map fst d) \<Longrightarrow> distinct (map fst (dict_set d k v))"
  by (induction d) (auto simp: keys_dict_set)

lemma years_in_dict_set:
  "years_in (dict_set d k ys) n = (if n = k then set ys else years_in d n)"
  by (simp add: years_in_def map_of_dict_set)

lemma add_coauthors_years:
  "years_in (add_coauthors ns y my d) n =
     (if n \<in> set ns \<and> Some n \<noteq> my then insert y (years_in d n) else years_in d n)"
proof (induction ns arbitrary: d)
  case Nil
  then show ?case by simp
next
  case (Cons c ns)
  show ?case
  proof (cases "Some c = my")
    case True
    with Cons show ?thesis by auto
  next
    case False
    show ?thesis
    proof (cases "map_of d c")
      case None
      with False Cons show ?thesis
        by (auto simp: years_in_dict_set) (simp_all add: years_in_def)
    next
      case (Some ys)
      with False Cons show ?thesis
        by (auto simp: years_in_dict_set set_add_def) (simp_all add: years_in_def)
    qed
  qed
qed

lemma add_coauthors_keys:
  "fst ` set (add_coauthors ns y my d) = fst ` set d \<union> {n \<in> set ns. Some n \<noteq> my}"
proof (induction ns arbitrary: d)
  case Nil
  then show ?case by simp
next
  case (Cons c ns)
  then show ?case by (auto simp: keys_dict_set split: option.splits)
qed

lemma add_coauthors_distinct:
  "distinct (map fst d) \<Longrightarrow> distinct (map fst (add_coauthors ns y my d))"
  by (induction ns arbitrary: d) (auto simp: distinct_dict_set split: option.splits)

lemma set_add_ok: "ys \<noteq> [] \<Longrightarrow> distinct ys \<Longrightarrow> set_add ys y \<noteq> [] \<and> distinct (set_add ys y)"
  by (simp add: set_add_def)

lemma dict_set_values:
  "\<forall>(k, ys) \<in> set d. P ys \<Longrightarrow> P v \<Longrightarrow> \<forall>(k, ys) \<in> set (dict_set d k' v). P ys"
proof (induction d)
  case Nil
  then show ?case by simp
next
  case (Cons a d)
  obtain k0 v0 where a: "a = (k0, v0)" by (cases a)
  from Cons have "\<forall>(k, ys) \<in> set (dict_set d k' v). P ys" by simp
  with Cons.prems show ?case by (cases "k0 = k'") (auto simp: a)
qed

lemma add_coauthors_year_sets:
  "\<forall>(k, ys) \<in> set d. ys \<noteq> [] \<and> distinct ys \<Longrightarrow>
   \<forall>(k, ys) \<in> set (add_coauthors ns y my d). ys \<noteq> [] \<and> distinct ys"
proof (induction ns arbitrary: d)
  case Nil
  then show ?case by simp
next
  case (Cons c ns)
  show ?case
  proof (cases "Some c = my")
    case True
    with Cons show ?thesis by simp
  next
    case False
    show ?thesis
    proof (cases "map_of d c")
      case None
      have "\<forall>(k, ys) \<in> set (dict_set d c [y]). ys \<noteq> [] \<and> distinct ys"
        using Cons.prems by (intro dict_set_values) auto
      with Cons.IH False None show ?thesis by simp
    next
      case (Some ys)
      then have "(c, ys) \<in> set d" by (rule map_of_SomeD)
      with Cons.prems have "ys \<noteq> [] \<and> distinct ys" by auto
      then have "set_add ys y \<noteq> [] \<and> distinct (set_add ys y)" by (simp add: set_add_ok)
      then have "\<forall>(k, ys) \<in> set (dict_set d c (set_add ys y)). ys \<noteq> [] \<and> distinct ys"
        using Cons.prems by (intro dict_set_values) auto
      with Cons.IH False Some show ?thesis by simp
    qed
  qed
qed

text \<open>
  The loop over the papers returns exactly when the loop body could read every paper;
  the dictionary is then built from what was read, paper after paper.
\<close>

lemma extract_loop_recs:
  "extract_loop w ps my d = Inr d' \<Longrightarrow>
   \<exists>recs. map (paper_coauthors w) ps = map Inr recs
      \<and> d' = foldl (\<lambda>d (ns, y). add_coauthors ns y my d) d recs"
proof (induction ps arbitrary: d)
  case Nil
  then show ?case by simp
next
  case (Cons p ps)
  from Cons.prems obtain ns y where r: "paper_coauthors w p = Inr (ns, y)"
    by (cases "paper_coauthors w p") auto
  with Cons.prems have "extract_loop w ps my (add_coauthors ns y my d) = Inr d'" by simp
  from Cons.IH [OF this] obtain recs where
    "map (paper_coauthors w) ps = map Inr recs"
    "d' = foldl (\<lambda>d (ns, y). add_coauthors ns y my d) (add_coauthors ns y my d) recs"
    by blast
  with r have "map (paper_coauthors w) (p # ps) = map Inr ((ns, y) # recs)
      \<and> d' = foldl (\<lambda>d (ns, y). add_coauthors ns y my d) d ((ns, y) # recs)"
    by simp
  then show ?case by blast
qed

lemma extract_loop_returns:
  "map (paper_coauthors w) ps = map Inr recs \<Longrightarrow>
   extract_loop w ps my d = Inr (foldl (\<lambda>d (ns, y). add_coauthors ns y my d) d recs)"
proof (induction ps arbitrary: d recs)
  case Nil
  then show ?case by simp
next
  case (Cons p ps)
  then obtain r recs' where "recs = r # recs'" by (cases recs) auto
  with Cons show ?case by (cases r) auto
qed

lemma shared_years_Cons:
  "shared_years ((ns, y) # recs) n = (if n \<in> set ns then {y} else {}) \<union> shared_years recs n"
  by (simp add: shared_years_def)

lemma foldl_add_years:
  "years_in (foldl (\<lambda>d (ns, y). add_coauthors ns y my d) d recs) n =
     years_in d n \<union> (if Some n \<noteq> my then shared_years recs n else {})"
proof (induction recs arbitrary: d)
  case Nil
  then show ?case by (simp add: shared_years_def)
next
  case (Cons r recs)
  obtain ns y where r: "r = (ns, y)" by (cases r)
  have "years_in (foldl (\<lambda>d (ns, y). add_coauthors ns y my d) d (r # recs)) n =
      years_in (add_coauthors ns y my d) n \<union> (if Some n \<noteq> my then shared_years recs n else {})"
    by (simp add: r Cons.IH)
  also have "\<dots> = years_in d n \<union> (if Some n \<noteq> my then shared_years (r # recs) n else {})"
    unfolding r shared_years_Cons add_coauthors_years by auto
  finally show ?case .
qed

lemma coauthor_names_Cons:
  "coauthor_names ((ns, y) # recs) my = {n \<in> set ns. Some n \<noteq> my} \<union> coauthor_names recs my"
  by (auto simp: coauthor_names_def)

lemma foldl_add_keys:
  "fst ` set (foldl (\<lambda>d (ns, y). add_coauthors ns y my d) d recs) =
     fst ` set d \<union> coauthor_names recs my"
proof (induction recs arbitrary: d)
  case Nil
  then show ?case by (simp add: coauthor_names_def)
next
  case (Cons r recs)
  obtain ns y where r: "r = (ns, y)" by (cases r)
  show ?case
    by (simp add: r Cons.IH add_coauthors_keys coauthor_names_Cons Un_assoc)
qed

lemma foldl_add_distinct:
  "distinct (map fst d) \<Longrightarrow>
   distinct (map fst (foldl (\<lambda>d (ns, y). add_coauthors ns y my d) d recs))"
proof (induction recs arbitrary: d)
  case Nil
  then show ?case by simp
next
  case (Cons r recs)
  then show ?case by (cases r) (simp add: add_coauthors_distinct)
qed

lemma foldl_add_year_sets:
  "\<forall>(k, ys) \<in> set d. ys \<noteq> [] \<and> distinct ys \<Longrightarrow>
   \<forall>(k, ys) \<in> set (foldl (\<lambda>d (ns, y). add_coauthors ns y my d) d recs). ys \<noteq> [] \<and> distinct ys"
proof (induction recs arbitrary: d)
  case Nil
  then show ?case by simp
next
  case (Cons r recs)
  obtain ns y where r: "r = (ns, y)" by (cases r)
  from Cons.prems have "\<forall>(k, ys) \<in> set (add_coauthors ns y my d). ys \<noteq> [] \<and> distinct ys"
    by (rule add_coauthors_year_sets)
  from Cons.IH [OF this] show ?case by (simp add: r)
qed

section \<open>Storing the entries under the cleaned-up names\<close>

lemma inj_reordered_name: "inj reordered_name"
  by (rule injI) (rule reordered_name_inj)

lemma rename_loop:
  "distinct (map (\<lambda>i. reordered_name (fst i)) d) \<Longrightarrow>
   reordered_name ` fst ` set d \<inter> fst ` set acc = {} \<Longrightarrow>
   foldl (\<lambda>d (nm, titles). dict_set d (nsf_name_cleanup [nm] ! 0) titles) acc d =
     acc @ map (\<lambda>(nm, titles). (reordered_name nm, titles)) d"
proof (induction d arbitrary: acc)
  case Nil
  then show ?case by simp
next
  case (Cons item d)
  obtain nm titles where item: "item = (nm, titles)" by (cases item)
  from Cons.prems item have fresh: "reordered_name nm \<notin> fst ` set acc" by auto
  from Cons.prems item have d: "distinct (map (\<lambda>i. reordered_name (fst i)) d)"
    and nm: "reordered_name nm \<notin> reordered_name ` fst ` set d" by (auto simp: image_image)
  have disj: "reordered_name ` fst ` set d \<inter> fst ` set (acc @ [(reordered_name nm, titles)]) = {}"
    using Cons.prems nm item by auto
  show ?case
    using Cons.IH [OF d disj]
    by (simp add: item nsf_name_cleanup_def dict_set_fresh [OF fresh])
qed

lemma rename_keys_eq:
  assumes "distinct (map fst d)"
  shows "rename_keys d = map (\<lambda>(nm, titles). (reordered_name nm, titles)) d"
proof -
  have "inj_on reordered_name (set (map fst d))"
    by (rule inj_on_subset [OF inj_reordered_name]) simp
  with assms have "distinct (map reordered_name (map fst d))"
    using distinct_map by blast
  then have "distinct (map (\<lambda>i. reordered_name (fst i)) d)" by (simp add: comp_def)
  then show ?thesis
    unfolding rename_keys_def using rename_loop [of d "[]"] by simp
qed

section \<open>The result of the extraction\<close>

lemma map_of_rename:
  "map_of (map (\<lambda>(nm, titles). (reordered_name nm, titles)) d) (reordered_name n) = map_of d n"
  by (induction d) (auto dest: reordered_name_inj)

lemma get_unique_coauthors_result:
  assumes "get_unique_coauthors w papers year_cutoff my_name = (Inr d, out)"
  shows "\<exists>kept recs uc.
           filter_papers w year_cutoff papers = Inr kept
         \<and> map (paper_coauthors w) kept = map Inr recs
         \<and> uc = foldl (\<lambda>d (ns, y). add_coauthors ns y my_name d) [] recs
         \<and> distinct (map fst uc)
         \<and> d = map (\<lambda>(nm, titles). (reordered_name nm, titles)) uc
         \<and> distinct (map fst d)"
proof -
  from assms obtain kept where k: "filter_papers w year_cutoff papers = Inr kept"
    by (cases "filter_papers w year_cutoff papers")
       (auto simp: get_unique_coauthors_def)
  with assms obtain uc where u: "extract_loop w kept my_name [] = Inr uc"
    and d: "d = rename_keys uc"
    by (cases "extract_loop w kept my_name []") (auto simp: get_unique_coauthors_def)
  from extract_loop_recs [OF u] obtain recs where
    r: "map (paper_coauthors w) kept = map Inr recs"
    and f: "uc = foldl (\<lambda>d (ns, y). add_coauthors ns y my_name d) [] recs" by blast
  have dist: "distinct (map fst uc)" unfolding f by (rule foldl_add_distinct) simp
  with d have d': "d = map (\<lambda>(nm, titles). (reordered_name nm, titles)) uc"
    by (simp add: rename_keys_eq)
  have "map fst d = map reordered_name (map fst uc)"
    by (simp add: d' comp_def case_prod_unfold)
  moreover have "inj_on reordered_name (set (map fst uc))"
    by (rule inj_on_subset [OF inj_reordered_name]) simp
  ultimately have "distinct (map fst d)" using dist distinct_map by metis
  with k r f dist d' show ?thesis by blast
qed

text \<open>
  The extraction returns whenever the filter returns and every retained paper can be
  filled and has a \<^verbatim>\<open>bib\<close>.
\<close>

lemma get_unique_coauthors_returns:
  assumes "filter_papers w year_cutoff papers = Inr kept"
    and "map (paper_coauthors w) kept = map Inr recs"
  shows "\<exists>d. get_unique_coauthors w papers year_cutoff my_name
               = (Inr d, [Processing (length kept) year_cutoff])"
  using assms extract_loop_returns [OF assms(2), of my_name "[]"]
  by (simp add: get_unique_coauthors_def)

lemma coauthors_keys:
  assumes "get_unique_coauthors w papers year_cutoff my_name = (Inr d, out)"
  shows "\<exists>recs. distinct (map fst d)
           \<and> fst ` set d = reordered_name ` coauthor_names recs my_name"
proof -
  from get_unique_coauthors_result [OF assms] obtain recs uc where
    f: "uc = foldl (\<lambda>d (ns, y). add_coauthors ns y my_name d) [] recs"
    and d: "d = map (\<lambda>(nm, titles). (reordered_name nm, titles)) uc"
    and 1: "distinct (map fst d)" by blast
  have "fst ` set uc = coauthor_names recs my_name"
    unfolding f by (simp add: foldl_add_keys)
  moreover have "fst ` set d = reordered_name ` fst ` set uc"
    by (force simp: d image_iff)
  ultimately show ?thesis using 1 by auto
qed

text \<open>
  Claim C4. When the extraction returns, its result is a mapping with distinct keys, the
  cleaned-up names of the co-authors read from the retained papers (every name on a
  paper's author list other than the subject's); two different names never share a key;
  and the entry of a name holds, without repetition, exactly the years of all the papers
  on which the name stands. A name on two papers thus has one entry with both years.
\<close>

theorem coauthors_deduplicated:
  assumes "get_unique_coauthors w papers year_cutoff my_name = (Inr d, out)"
  shows "\<exists>kept recs.
           filter_papers w year_cutoff papers = Inr kept
         \<and> map (paper_coauthors w) kept = map Inr recs
         \<and> distinct (map fst d)
         \<and> fst ` set d = reordered_name ` coauthor_names recs my_name
         \<and> (\<forall>n \<in> coauthor_names recs my_name. \<forall>m \<in> coauthor_names recs my_name.
               reordered_name n = reordered_name m \<longrightarrow> n = m)
         \<and> (\<forall>n \<in> coauthor_names recs my_name.
               \<exists>ys. map_of d (reordered_name n) = Some ys \<and> distinct ys
                  \<and> set ys = shared_years recs n)"
proof -
  from get_unique_coauthors_result [OF assms] obtain kept recs uc where
    k: "filter_papers w year_cutoff papers = Inr kept"
    and r: "map (paper_coauthors w) kept = map Inr recs"
    and f: "uc = foldl (\<lambda>d (ns, y). add_coauthors ns y my_name d) [] recs"
    and dist: "distinct (map fst uc)"
    and d: "d = map (\<lambda>(nm, titles). (reordered_name nm, titles)) uc"
    and 1: "distinct (map fst d)" by blast
  have keys: "fst ` set uc = coauthor_names recs my_name"
    unfolding f by (simp add: foldl_add_keys)
  have "fst ` set d = reordered_name ` fst ` set uc"
    by (force simp: d image_iff)
  with keys have 2: "fst ` set d = reordered_name ` coauthor_names recs my_name" by simp
  have 3: "\<forall>n \<in> coauthor_names recs my_name. \<forall>m \<in> coauthor_names recs my_name.
               reordered_name n = reordered_name m \<longrightarrow> n = m"
    by (simp add: reordered_name_inj)
  have 4: "\<exists>ys. map_of d (reordered_name n) = Some ys \<and> distinct ys
                  \<and> set ys = shared_years recs n"
    if n: "n \<in> coauthor_names recs my_name" for n
  proof -
    from n keys have "n \<in> fst ` set uc" by simp
    then obtain ys where ys: "map_of uc n = Some ys"
      by (metis domIff dom_map_of_conv_image_fst not_Some_eq)
    then have "(n, ys) \<in> set uc" by (rule map_of_SomeD)
    moreover have "\<forall>(k, ys) \<in> set uc. ys \<noteq> [] \<and> distinct ys"
      unfolding f by (rule foldl_add_year_sets) simp
    ultimately have dys: "distinct ys" by auto
    have "Some n \<noteq> my_name" using n by (simp add: coauthor_names_def)
    moreover have "years_in [] n = {}" by (simp add: years_in_def)
    ultimately have "years_in uc n = shared_years recs n"
      unfolding f foldl_add_years by simp
    with ys have "set ys = shared_years recs n" by (simp add: years_in_def)
    moreover have "map_of d (reordered_name n) = Some ys"
      unfolding d using ys by (simp add: map_of_rename)
    ultimately show ?thesis using dys by blast
  qed
  from k r 1 2 3 4 show ?thesis by blast
qed

lemma sample_extraction:
  "get_unique_coauthors (sample_world subject) [paper_2023, paper_2020, paper_no_year] 2022
     (Some ''A B'')
   = (Inr [(''D, C'', [PStr ''2023'', PStr ''Unknown'']), (''F, E'', [PStr ''Unknown''])],
      [Processing 2 2022])"
  by (simp add: get_unique_coauthors_def sample_world_def sample_defs filter_year_def
      get_pub_year_def sample_int_defs paper_coauthors_def paper_year_of_def rename_keys_def
      nsf_name_cleanup_def reordered_name_def set_add_def)

lemma sample_filter:
  "filter_papers (sample_world subject) 2022 [paper_2023, paper_2020, paper_no_year]
     = Inr [paper_2023, paper_no_year]"
  by (simp add: sample_world_def sample_defs filter_year_def get_pub_year_def sample_int_defs)

lemma sample_recs:
  "map (paper_coauthors (sample_world subject)) [paper_2023, paper_no_year]
     = map Inr [([''A B'', ''C D''], PStr ''2023''),
                ([''A B'', ''C D'', ''E F''], PStr ''Unknown'')]"
  by (simp add: sample_world_def sample_defs paper_coauthors_def paper_year_of_def)

theorem coauthors_deduplicated_witness:
  "get_unique_coauthors (sample_world subject) [paper_2023, paper_2020, paper_no_year] 2022
     (Some ''A B'')
   = (Inr [(''D, C'', [PStr ''2023'', PStr ''Unknown'']), (''F, E'', [PStr ''Unknown''])],
      [Processing 2 2022])
   \<and> coauthor_names [([''A B'', ''C D''], PStr ''2023''),
                      ([''A B'', ''C D'', ''E F''], PStr ''Unknown'')] (Some ''A B'')
       = {''C D'', ''E F''}
   \<and> shared_years [([''A B'', ''C D''], PStr ''2023''),
                    ([''A B'', ''C D'', ''E F''], PStr ''Unknown'')] ''C D''
       = {PStr ''2023'', PStr ''Unknown''}
   \<and> (\<exists>ys. map_of [(''D, C'', [PStr ''2023'', PStr ''Unknown'']), (''F, E'', [PStr ''Unknown''])]
              (reordered_name ''C D'') = Some ys
          \<and> set ys = {PStr ''2023'', PStr ''Unknown''})"
proof -
  let ?recs = "[([''A B'', ''C D''], PStr ''2023''), ([''A B'', ''C D'', ''E F''], PStr ''Unknown'')]"
  let ?d = "[(''D, C'', [PStr ''2023'', PStr ''Unknown'']), (''F, E'', [PStr ''Unknown''])]"
  have cy: "current_year (sample_world subject) = 2026" by (simp add: sample_world_def)
  from coauthors_deduplicated [OF sample_extraction] obtain kept recs where
    k: "filter_papers (sample_world subject) 2022
          [paper_2023, paper_2020, paper_no_year] = Inr kept"
    and r: "map (paper_coauthors (sample_world subject)) kept = map Inr recs"
    and y: "\<forall>n \<in> coauthor_names recs (Some ''A B'').
               \<exists>ys. map_of ?d (reordered_name n) = Some ys \<and> distinct ys
                  \<and> set ys = shared_years recs n"
    by blast
  from k [unfolded cy sample_filter] have "kept = [paper_2023, paper_no_year]" by simp
  with r have "map Inr recs = (map Inr ?recs :: (error + string list \<times> pyval) list)"
    by (simp only: sample_recs)
  then have recs: "recs = ?recs" by (rule map_injective) simp
  have names: "coauthor_names ?recs (Some ''A B'') = {''C D'', ''E F''}"
    by (simp add: coauthor_names_def insert_commute)
  have years: "shared_years ?recs ''C D'' = {PStr ''2023'', PStr ''Unknown''}"
    by (simp add: shared_years_def)
  have "''C D'' \<in> coauthor_names recs (Some ''A B'')" unfolding recs names by simp
  with y have "\<exists>ys. map_of ?d (reordered_name ''C D'') = Some ys \<and> distinct ys
                  \<and> set ys = shared_years recs ''C D''" by (rule bspec)
  then have "\<exists>ys. map_of ?d (reordered_name ''C D'') = Some ys
          \<and> set ys = {PStr ''2023'', PStr ''Unknown''}"
    unfolding recs years by blast
  with sample_extraction names years show ?thesis by (intro conjI)
qed

section \<open>The latest shared year\<close>

lemma digit_string_less_Unknown: "digit_string s \<Longrightarrow> s < ''Unknown''"
proof -
  assume "digit_string s"
  then obtain c cs where s: "s = c # cs" and c: "ascii_digit c"
    by (cases s) (auto simp: digit_string_def)
  from c have "(of_char c :: nat) < of_char CHR ''U''" by (simp add: ascii_digit_def)
  then have "c < CHR ''U''" by (simp add: less_char_def)
  then show ?thesis by (simp add: s)
qed

lemma max_loop_Unknown:
  assumes "\<forall>y \<in> set xs. \<exists>s. y = PStr s \<and> s \<le> ''Unknown''"
    and "sm \<le> ''Unknown''"
    and "sm = ''Unknown'' \<or> PStr ''Unknown'' \<in> set xs"
  shows "max_loop (PStr sm) xs = Inr (PStr ''Unknown'')"
  using assms
proof (induction xs arbitrary: sm)
  case Nil
  then show ?case by simp
next
  case (Cons x xs)
  from Cons.prems(1) obtain s where x: "x = PStr s" and s: "s \<le> ''Unknown''" by auto
  from Cons.prems(1) have rest: "\<forall>y \<in> set xs. \<exists>s. y = PStr s \<and> s \<le> ''Unknown''" by simp
  show ?case
  proof (cases "sm < s")
    case True
    have "s = ''Unknown'' \<or> PStr ''Unknown'' \<in> set xs"
      using Cons.prems(2,3) True s x by auto
    from Cons.IH [OF rest s this] True show ?thesis by (simp add: x)
  next
    case False
    have "sm = ''Unknown'' \<or> PStr ''Unknown'' \<in> set xs"
    proof (cases "s = ''Unknown''")
      case True
      with False Cons.prems(2) show ?thesis by (simp add: order.order_iff_strict)
    next
      case False
      with Cons.prems(3) x show ?thesis by auto
    qed
    from Cons.IH [OF rest Cons.prems(2) this] False show ?thesis by (simp add: x)
  qed
qed

lemma py_max_Unknown:
  assumes "PStr ''Unknown'' \<in> set ys"
    and "\<forall>y \<in> set ys. y = PStr ''Unknown'' \<or> (\<exists>s. y = PStr s \<and> digit_string s)"
  shows "py_max ys = Inr (PStr ''Unknown'')"
proof -
  have le: "\<exists>s. y = PStr s \<and> s \<le> ''Unknown''" if "y \<in> set ys" for y
    using assms(2) that digit_string_less_Unknown by (metis less_imp_le order_refl)
  from assms(1) obtain x xs where ys: "ys = x # xs" by (cases ys) auto
  from le [of x] obtain sm where x: "x = PStr sm" and sm: "sm \<le> ''Unknown''"
    by (auto simp: ys)
  have "\<forall>y \<in> set xs. \<exists>s. y = PStr s \<and> s \<le> ''Unknown''" using le by (simp add: ys)
  moreover have "sm = ''Unknown'' \<or> PStr ''Unknown'' \<in> set xs"
    using assms(1) by (auto simp: ys x)
  ultimately have "max_loop (PStr sm) xs = Inr (PStr ''Unknown'')"
    using sm by (intro max_loop_Unknown)
  then show ?thesis by (simp add: ys x)
qed

lemma filter_papers_subset: "filter_papers w c ps = Inr kept \<Longrightarrow> set kept \<subseteq> set ps"
proof (induction ps arbitrary: kept)
  case Nil
  then show ?case by simp
next
  case (Cons p ps)
  from Cons.prems obtain r where r: "filter_papers w c ps = Inr r"
    by (cases "filter_year w p"; cases "filter_papers w c ps") auto
  with Cons.prems have "kept = p # r \<or> kept = r"
    by (cases "filter_year w p") (auto split: if_splits)
  with Cons.IH [OF r] show ?case by auto
qed

lemma paper_coauthors_year:
  "paper_coauthors w p = Inr (ns, y) \<Longrightarrow> n \<in> set ns \<Longrightarrow>
   \<exists>pf b a. fill_paper w p = Inr pf \<and> bib pf = Some b \<and> author b = Some a
      \<and> n \<in> set (py_split '' and '' a) \<and> y = paper_year_of b"
  by (auto simp: paper_coauthors_def split: sum.splits option.splits)

text \<open>
  Claim C9. Every year in a co-author's year-set is the value of \<^verbatim>\<open>pub_year\<close>, as
  it stands there, in a filled paper of the profile that names the co-author in its
  author field, or the string \<^verbatim>\<open>"Unknown"\<close> when that filled paper has no year; the
  year-set is not empty. A look-up that raises nothing
  records as latest year what \<^verbatim>\<open>max\<close> returns on the year-set, and that is the
  greatest element of the year-set: it is in the year-set, every year in the set is of
  its type (all strings or all integers), and none is greater, for strings in the order
  of code points. Hence, when the year-set holds \<^verbatim>\<open>"Unknown"\<close> besides strings of
  ASCII digits, the year recorded for the co-author is \<^verbatim>\<open>"Unknown"\<close>, whether the
  look-up raised or not.
\<close>

theorem latest_year_is_maximum_of_raw_years:
  assumes "get_unique_coauthors w papers year_cutoff my_name = (Inr d, out)"
    and "(c, ys) \<in> set d"
  shows "ys \<noteq> []
     \<and> (\<forall>y \<in> set ys. \<exists>p \<in> set papers. \<exists>pf b a n.
            fill_paper w p = Inr pf \<and> bib pf = Some b
          \<and> author b = Some a \<and> n \<in> set (py_split '' and '' a) \<and> c = reordered_name n
          \<and> y = (case pub_year b of None \<Rightarrow> PStr ''Unknown'' | Some v \<Rightarrow> v))
     \<and> (\<forall>a latest. validate_one w c ys = Inr (a, latest) \<longrightarrow>
            py_max ys = Inr latest
          \<and> map_of (fst (get_validated_affiliations w d)) c = Some (a, latest)
          \<and> latest \<in> set ys
          \<and> ((\<exists>s. latest = PStr s \<and> (\<forall>y \<in> set ys. \<exists>t. y = PStr t \<and> t \<le> s))
             \<or> (\<exists>i. latest = PInt i \<and> (\<forall>y \<in> set ys. \<exists>j. y = PInt j \<and> j \<le> i))))
     \<and> (PStr ''Unknown'' \<in> set ys
          \<and> (\<forall>y \<in> set ys. y = PStr ''Unknown'' \<or> (\<exists>s. y = PStr s \<and> digit_string s))
        \<longrightarrow> (\<exists>a. map_of (fst (get_validated_affiliations w d)) c
                    = Some (a, PStr ''Unknown'')))"
proof -
  from get_unique_coauthors_result [OF assms(1)] obtain kept recs uc where
    k: "filter_papers w year_cutoff papers = Inr kept"
    and r: "map (paper_coauthors w) kept = map Inr recs"
    and f: "uc = foldl (\<lambda>d (ns, y). add_coauthors ns y my_name d) [] recs"
    and dist: "distinct (map fst uc)"
    and d: "d = map (\<lambda>(nm, titles). (reordered_name nm, titles)) uc"
    and distd: "distinct (map fst d)" by blast
  from assms(2) obtain n where c: "c = reordered_name n" and n: "(n, ys) \<in> set uc"
    by (auto simp: d)
  have "\<forall>(k, ys) \<in> set uc. ys \<noteq> [] \<and> distinct ys"
    unfolding f by (rule foldl_add_year_sets) simp
  with n have 1: "ys \<noteq> []" by auto
  from n have "n \<in> fst ` set uc" by (rule rev_image_eqI) simp
  then have "n \<in> coauthor_names recs my_name" unfolding f by (simp add: foldl_add_keys)
  then have me: "Some n \<noteq> my_name" by (simp add: coauthor_names_def)
  from n dist have "map_of uc n = Some ys" by simp
  then have "years_in uc n = set ys" by (simp add: years_in_def)
  moreover have "years_in [] n = {}" by (simp add: years_in_def)
  then have "years_in uc n = shared_years recs n"
    using me unfolding f foldl_add_years by simp
  ultimately have ys: "set ys = shared_years recs n" by simp
  have 2: "\<exists>p \<in> set papers. \<exists>pf b a n. fill_paper w p = Inr pf \<and> bib pf = Some b
          \<and> author b = Some a \<and> n \<in> set (py_split '' and '' a) \<and> c = reordered_name n
          \<and> y = (case pub_year b of None \<Rightarrow> PStr ''Unknown'' | Some v \<Rightarrow> v)"
    if "y \<in> set ys" for y
  proof -
    from that ys obtain ns where ns: "(ns, y) \<in> set recs" "n \<in> set ns"
      by (auto simp: shared_years_def)
    then have "Inr (ns, y) \<in> set (map (paper_coauthors w) kept)" unfolding r by simp
    then obtain p where p: "p \<in> set kept" "paper_coauthors w p = Inr (ns, y)" by auto
    from paper_coauthors_year [OF p(2) ns(2)] obtain pf b a where
      "fill_paper w p = Inr pf" "bib pf = Some b" "author b = Some a"
      "n \<in> set (py_split '' and '' a)" "y = paper_year_of b" by blast
    then have "fill_paper w p = Inr pf \<and> bib pf = Some b
          \<and> author b = Some a \<and> n \<in> set (py_split '' and '' a) \<and> c = reordered_name n
          \<and> y = (case pub_year b of None \<Rightarrow> PStr ''Unknown'' | Some v \<Rightarrow> v)"
      using c by (simp add: paper_year_of_def)
    moreover from p(1) filter_papers_subset [OF k] have "p \<in> set papers" by auto
    ultimately show ?thesis by blast
  qed
  have 3: "py_max ys = Inr latest" if "validate_one w c ys = Inr (a, latest)" for a latest
    using validate_one_latest [OF that] 1 by simp
  have 5: "py_max ys = Inr latest
          \<and> map_of (fst (get_validated_affiliations w d)) c = Some (a, latest)
          \<and> latest \<in> set ys
          \<and> ((\<exists>s. latest = PStr s \<and> (\<forall>y \<in> set ys. \<exists>t. y = PStr t \<and> t \<le> s))
             \<or> (\<exists>i. latest = PInt i \<and> (\<forall>y \<in> set ys. \<exists>j. y = PInt j \<and> j \<le> i)))"
    if v: "validate_one w c ys = Inr (a, latest)" for a latest
  proof -
    from 3 [OF v] have m: "py_max ys = Inr latest" .
    have "map_of (fst (get_validated_affiliations w d)) c = Some (a, latest)"
      using get_validated_affiliations_lookup [OF distd assms(2), of w] v by simp
    with m py_max_is_greatest [OF m] show ?thesis by blast
  qed
  have 4: "\<exists>a. map_of (fst (get_validated_affiliations w d)) c = Some (a, PStr ''Unknown'')"
    if u: "PStr ''Unknown'' \<in> set ys"
      and ds: "\<forall>y \<in> set ys. y = PStr ''Unknown'' \<or> (\<exists>s. y = PStr s \<and> digit_string s)"
  proof (cases "validate_one w c ys")
    case (Inl e)
    then show ?thesis
      using get_validated_affiliations_lookup [OF distd assms(2), of w] by simp
  next
    case (Inr res)
    obtain a latest where res: "res = (a, latest)" by (cases res)
    from Inr res have "py_max ys = Inr latest" using 3 by simp
    with py_max_Unknown [OF u ds] have "latest = PStr ''Unknown''" by simp
    with Inr res show ?thesis
      using get_validated_affiliations_lookup [OF distd assms(2), of w] by simp
  qed
  from 1 2 5 4 show ?thesis by blast
qed

lemma sample_extraction_two_years:
  "get_unique_coauthors (sample_world subject) [paper_2023, paper_2021] 2020 (Some ''A B'')
   = (Inr [(''D, C'', [PStr ''2023'', PStr ''2021''])], [Processing 2 2020])"
  by (simp add: get_unique_coauthors_def sample_world_def sample_defs filter_year_def
      get_pub_year_def sample_int_defs paper_coauthors_def paper_year_of_def rename_keys_def
      nsf_name_cleanup_def reordered_name_def set_add_def)

theorem latest_year_is_maximum_of_raw_years_witness:
  "get_unique_coauthors (sample_world subject) [paper_2023, paper_2021] 2020 (Some ''A B'')
     = (Inr [(''D, C'', [PStr ''2023'', PStr ''2021''])], [Processing 2 2020])
   \<and> validate_one (sample_world subject) ''D, C'' [PStr ''2023'', PStr ''2021'']
       = Inr (''MIT'', PStr ''2023'')
   \<and> py_max [PStr ''2023'', PStr ''2021''] = Inr (PStr ''2023'')
   \<and> (''2021'' :: string) \<le> ''2023''
   \<and> map_of (fst (get_validated_affiliations (sample_world subject)
         [(''D, C'', [PStr ''2023'', PStr ''2021''])])) ''D, C''
       = Some (''MIT'', PStr ''2023'')
   \<and> get_unique_coauthors (sample_world subject) [paper_2023, paper_2020, paper_no_year] 2022
       (Some ''A B'')
     = (Inr [(''D, C'', [PStr ''2023'', PStr ''Unknown'']), (''F, E'', [PStr ''Unknown''])],
        [Processing 2 2022])
   \<and> validate_one (sample_world subject) ''D, C'' [PStr ''2023'', PStr ''Unknown'']
       = Inr (''MIT'', PStr ''Unknown'')
   \<and> py_max [PStr ''2023'', PStr ''Unknown''] = Inr (PStr ''Unknown'')
   \<and> digit_string ''2023''
   \<and> map_of (fst (get_validated_affiliations (sample_world subject)
         [(''D, C'', [PStr ''2023'', PStr ''Unknown'']), (''F, E'', [PStr ''Unknown''])])) ''D, C''
       = Some (''MIT'', PStr ''Unknown'')"
proof -
  let ?w = "sample_world subject"
  let ?ys = "[PStr ''2023'', PStr ''Unknown'']"
  let ?d = "[(''D, C'', ?ys), (''F, E'', [PStr ''Unknown''])]"
  let ?zs = "[PStr ''2023'', PStr ''2021'']"
  let ?e = "[(''D, C'', ?zs)]"
  have m: "(''D, C'', ?ys) \<in> set ?d" by simp
  have v: "validate_one ?w ''D, C'' ?ys = Inr (''MIT'', PStr ''Unknown'')"
    by (simp add: validate_one_def sample_world_def cand_no_affiliation_def cand_mit_def
        cand_pub_year_def get_pub_year_def sample_defs)
  have ds: "digit_string ''2023''" by (simp add: digit_string_def ascii_digit_def)
  have u: "PStr ''Unknown'' \<in> set ?ys" by simp
  have a: "\<forall>y \<in> set ?ys. y = PStr ''Unknown'' \<or> (\<exists>s. y = PStr s \<and> digit_string s)"
    using ds by simp
  from latest_year_is_maximum_of_raw_years [OF sample_extraction m] v u a
  have 1: "py_max ?ys = Inr (PStr ''Unknown'')"
    and 2: "map_of (fst (get_validated_affiliations ?w ?d)) ''D, C''
              = Some (''MIT'', PStr ''Unknown'')"
    by blast+
  have m': "(''D, C'', ?zs) \<in> set ?e" by simp
  have v': "validate_one ?w ''D, C'' ?zs = Inr (''MIT'', PStr ''2023'')"
    by (simp add: validate_one_def sample_world_def cand_no_affiliation_def cand_mit_def
        cand_pub_year_def get_pub_year_def sample_defs)
  from latest_year_is_maximum_of_raw_years [OF sample_extraction_two_years m'] v'
  have 3: "py_max ?zs = Inr (PStr ''2023'')"
    and 4: "map_of (fst (get_validated_affiliations ?w ?e)) ''D, C''
              = Some (''MIT'', PStr ''2023'')"
    and 5: "(\<exists>s. PStr ''2023'' = PStr s \<and> (\<forall>y \<in> set ?zs. \<exists>t. y = PStr t \<and> t \<le> s))
          \<or> (\<exists>i. PStr ''2023'' = PInt i \<and> (\<forall>y \<in> set ?zs. \<exists>j. y = PInt j \<and> j \<le> i))"
    by blast+
  from 5 have 6: "(''2021'' :: string) \<le> ''2023''" by auto
  from sample_extraction_two_years v' 3 6 4 sample_extraction v 1 ds 2
  show ?thesis by (intro conjI)
qed

section \<open>The subject's own name\<close>

lemma reordered_name_comma:
  "reordered_name n = n \<or> CHR '','' \<in> set (reordered_name n)"
  by (simp add: reordered_name_def Let_def)

lemma main_saved:
  assumes "main w a files = (None, files', out)"
    and "get_scholar_profile w (scholar_id a) = Inr (Some profile)"
  shows "\<exists>papers d out2.
           publications profile = Some papers
         \<and> get_unique_coauthors w papers (current_year w - years_back a) (name profile)
             = (Inr d, out2)
         \<and> files' = files(output_file a \<mapsto>
                       \<lparr>file_delimiter = CHR 0x09,
                        file_rows = map coa_row (fst (get_validated_affiliations w d))\<rparr>)"
proof -
  from assms obtain papers where p: "publications profile = Some papers"
    by (cases "publications profile") (auto simp: main_def Let_def)
  obtain r out2 where g: "get_unique_coauthors w papers (current_year w - years_back a)
      (name profile) = (r, out2)"
    by (cases "get_unique_coauthors w papers (current_year w - years_back a) (name profile)")
  with assms p obtain d where d: "r = Inr d"
    by (cases r) (auto simp: main_def Let_def)
  from assms p g d have "files' = files(output_file a \<mapsto>
                       \<lparr>file_delimiter = CHR 0x09,
                        file_rows = map coa_row (fst (get_validated_affiliations w d))\<rparr>)"
    by (auto simp: main_def Let_def save_coa_tsv_def write_rows_eq split: prod.splits)
  with p g d show ?thesis by blast
qed

text \<open>
  Claim C6, as amended. When a run writes its file, an entry of an author field equal to
  the subject's name has been skipped, so no row carries the cleaned-up form of the
  subject's name; and if the subject's name contains no comma, no row carries the
  subject's name itself.
\<close>

theorem subject_name_not_exported:
  assumes "main w a files = (None, files', out)"
    and "get_scholar_profile w (scholar_id a) = Inr (Some profile)"
    and "name profile = Some me"
  shows "\<exists>rows. files' (output_file a) = Some \<lparr>file_delimiter = CHR 0x09, file_rows = rows\<rparr>
     \<and> (\<forall>row \<in> set rows. row ! 1 \<noteq> PStr (reordered_name me))
     \<and> (CHR '','' \<notin> set me \<longrightarrow> (\<forall>row \<in> set rows. row ! 1 \<noteq> PStr me))"
proof -
  from main_saved [OF assms(1,2)] assms(3) obtain papers d out2 where
    g: "get_unique_coauthors w papers (current_year w - years_back a) (Some me) = (Inr d, out2)"
    and f: "files' = files(output_file a \<mapsto>
              \<lparr>file_delimiter = CHR 0x09,
               file_rows = map coa_row (fst (get_validated_affiliations w d))\<rparr>)"
    by auto
  from coauthors_keys [OF g] obtain recs where
    dist: "distinct (map fst d)"
    and keys: "fst ` set d = reordered_name ` coauthor_names recs (Some me)" by blast
  let ?rows = "map coa_row (fst (get_validated_affiliations w d))"
  have names: "\<exists>n. n \<noteq> me \<and> row ! 1 = PStr (reordered_name n)" if "row \<in> set ?rows" for row
  proof -
    from that obtain item where i: "item \<in> set (fst (get_validated_affiliations w d))"
      and row: "row = coa_row item" by auto
    have "row ! 1 = PStr (fst item)" by (simp add: row coa_row_def split: prod.splits)
    moreover from i have "fst item \<in> set (map fst (fst (get_validated_affiliations w d)))"
      by simp
    then have "fst item \<in> fst ` set d"
      by (simp add: get_validated_affiliations_keys [OF dist])
    with keys obtain n where "n \<in> coauthor_names recs (Some me)" "fst item = reordered_name n"
      by auto
    ultimately show ?thesis by (auto simp: coauthor_names_def)
  qed
  have 1: "row ! 1 \<noteq> PStr (reordered_name me)" if "row \<in> set ?rows" for row
    using names [OF that] by (auto dest: reordered_name_inj)
  have 2: "row ! 1 \<noteq> PStr me" if "row \<in> set ?rows" "CHR '','' \<notin> set me" for row
  proof -
    from names [OF that(1)] obtain n where n: "n \<noteq> me" "row ! 1 = PStr (reordered_name n)"
      by blast
    from reordered_name_comma [of n] n(1) that(2) have "reordered_name n \<noteq> me" by auto
    with n(2) show ?thesis by simp
  qed
  from f have "files' (output_file a) = Some \<lparr>file_delimiter = CHR 0x09, file_rows = ?rows\<rparr>" by simp
  with 1 2 show ?thesis by blast
qed

lemma sample_run:
  "main (sample_world subject) default_args Map.empty =
     (None,
      [''NSF_COA.tsv'' \<mapsto>
         \<lparr>file_delimiter = CHR 0x09,
          file_rows =
            [[PStr ''A:'', PStr ''D, C'', PStr ''MIT'', PStr [], PStr ''Unknown''],
             [PStr ''A:'', PStr ''F, E'', PStr ''Unknown Institution'', PStr [],
              PStr ''Unknown'']]\<rparr>],
      [Retrieving ''3HU8c9EAAAAJ'', ProfileFound (Some ''A B''), ExtractingFrom 2022,
       Processing 2 2022, ValidatingAffiliations, Validating 2, Saved ''NSF_COA.tsv''])"
proof -
  have p: "get_scholar_profile (sample_world subject) ''3HU8c9EAAAAJ'' = Inr (Some subject)"
    by (simp add: get_scholar_profile_def sample_world_def)
  have s: "publications subject = Some [paper_2023, paper_2020, paper_no_year]"
    "name subject = Some ''A B''" by (simp_all add: subject_def)
  have cy: "current_year (sample_world subject) = 2026" by (simp add: sample_world_def)
  have v: "get_validated_affiliations (sample_world subject)
       [(''D, C'', [PStr ''2023'', PStr ''Unknown'']), (''F, E'', [PStr ''Unknown''])]
     = ([(''D, C'', ''MIT'', PStr ''Unknown''), (''F, E'', ''Unknown Institution'', PStr ''Unknown'')],
        [Validating 2])"
    by (simp add: get_validated_affiliations_def validate_one_def sample_world_def
        cand_no_affiliation_def cand_mit_def cand_other_years_def cand_pub_year_def
        get_pub_year_def sample_defs)
  show ?thesis
    by (simp add: main_def default_args_def p s cy sample_extraction v save_coa_tsv_def coa_row_def)
qed

theorem subject_name_not_exported_witness:
  "main (sample_world subject) default_args Map.empty =
     (None,
      [''NSF_COA.tsv'' \<mapsto>
         \<lparr>file_delimiter = CHR 0x09,
          file_rows =
            [[PStr ''A:'', PStr ''D, C'', PStr ''MIT'', PStr [], PStr ''Unknown''],
             [PStr ''A:'', PStr ''F, E'', PStr ''Unknown Institution'', PStr [],
              PStr ''Unknown'']]\<rparr>],
      [Retrieving ''3HU8c9EAAAAJ'', ProfileFound (Some ''A B''), ExtractingFrom 2022,
       Processing 2 2022, ValidatingAffiliations, Validating 2, Saved ''NSF_COA.tsv''])
   \<and> name subject = Some ''A B''
   \<and> CHR '','' \<notin> set ''A B''
   \<and> reordered_name ''A B'' = ''B, A''
   \<and> list_all (\<lambda>row. row ! 1 \<noteq> PStr ''B, A'' \<and> row ! 1 \<noteq> PStr ''A B'')
        [[PStr ''A:'', PStr ''D, C'', PStr ''MIT'', PStr [], PStr ''Unknown''],
         [PStr ''A:'', PStr ''F, E'', PStr ''Unknown Institution'', PStr [], PStr ''Unknown'']]"
proof -
  have p: "get_scholar_profile (sample_world subject) (scholar_id default_args)
             = Inr (Some subject)"
    by (simp add: get_scholar_profile_def sample_world_def default_args_def)
  have n: "name subject = Some ''A B''" by (simp add: subject_def)
  have c: "CHR '','' \<notin> set ''A B''" by simp
  have r: "reordered_name ''A B'' = ''B, A''" by (simp add: reordered_name_def)
  from subject_name_not_exported [OF sample_run p n] c r
  have "list_all (\<lambda>row. row ! 1 \<noteq> PStr ''B, A'' \<and> row ! 1 \<noteq> PStr ''A B'')
        [[PStr ''A:'', PStr ''D, C'', PStr ''MIT'', PStr [], PStr ''Unknown''],
         [PStr ''A:'', PStr ''F, E'', PStr ''Unknown Institution'', PStr [], PStr ''Unknown'']]"
    by (auto simp: default_args_def list_all_iff)
  with sample_run n c r show ?thesis by blast
qed

text \<open>
  The claim as it is written fails for a profile whose name is written surname first:
  the co-author entry \<^verbatim>\<open>"Jane Public"\<close> differs from the subject's name
  \<^verbatim>\<open>"Public, Jane"\<close>, is kept, and is cleaned up to that very name.
\<close>

theorem subject_name_exported_counterexample:
  "name subject_surname_first = Some ''Public, Jane''
   \<and> get_scholar_profile (sample_world subject_surname_first) (scholar_id default_args)
       = Inr (Some subject_surname_first)
   \<and> fst (snd (main (sample_world subject_surname_first) default_args Map.empty)) ''NSF_COA.tsv''
       = Some \<lparr>file_delimiter = CHR 0x09,
               file_rows =
                 [[PStr ''A:'', PStr ''Public, Jane'', PStr ''Unknown Institution'', PStr [],
                   PStr ''Unknown''],
                  [PStr ''A:'', PStr ''D, C'', PStr ''Unknown Institution'', PStr [],
                   PStr ''2025'']]\<rparr>"
  by (simp add: main_def default_args_def get_scholar_profile_def sample_world_def
      subject_surname_first_def get_unique_coauthors_def sample_defs filter_year_def
      get_pub_year_def sample_int_defs paper_coauthors_def paper_year_of_def rename_keys_def
      nsf_name_cleanup_def reordered_name_def set_add_def
      get_validated_affiliations_def validate_one_def cand_no_affiliation_def cand_mit_def
      cand_pub_year_def save_coa_tsv_def coa_row_def)

end
